theory Spec2Isabelle
  imports Main "HOL-Library.Multiset" "HOL-Library.AList"
begin

section \<open>Python values, exceptions and container primitives\<close>

text \<open>
  The script \<open>scripts/bug_release.py\<close> is modelled under Python 3.
  Every exception the modelled lines can raise is a value of \<open>error\<close>; a function that
  can raise returns \<open>error + 'a\<close> with \<open>Inl\<close> for the exception. No exception is caught
  anywhere in the script, so an \<open>Inl\<close> ends the run.
\<close>

datatype error = ValueError | TypeError | KeyError | IndexError | AttributeError | FileNotFoundError

text \<open>\<open>xs.index(x)\<close>: the first position of \<open>x\<close>, \<open>ValueError\<close> when absent.\<close>

fun list_index :: "'a list \<Rightarrow> 'a \<Rightarrow> error + nat" where
  "list_index [] x = Inl ValueError"
| "list_index (y # ys) x =
     (if y = x then Inr 0
      else (case list_index ys x of Inl err \<Rightarrow> Inl err | Inr i \<Rightarrow> Inr (Suc i)))"

text \<open>
  \<open>xs[i]\<close> for an index that is \<open>None\<close> or a non-negative integer: \<open>None\<close> is a
  \<open>TypeError\<close>, an index past the end an \<open>IndexError\<close>.
\<close>

definition list_getitem :: "'a list \<Rightarrow> nat option \<Rightarrow> error + 'a" where
  "list_getitem xs i =
     (case i of
        None \<Rightarrow> Inl TypeError
      | Some n \<Rightarrow> if n < length xs then Inr (xs ! n) else Inl IndexError)"

text \<open>\<open>d[k]\<close> on a dictionary: \<open>KeyError\<close> when the key is absent.\<close>

definition dict_getitem :: "('k \<rightharpoonup> 'v) \<Rightarrow> 'k \<Rightarrow> error + 'v" where
  "dict_getitem d k = (case d k of None \<Rightarrow> Inl KeyError | Some v \<Rightarrow> Inr v)"

text \<open>
  \<open>max(a, b)\<close> where \<open>a\<close> is \<open>None\<close> or an integer and \<open>b\<close> an integer. Python 3 does
  not order \<open>None\<close> against an integer: the comparison raises \<open>TypeError\<close>.
\<close>

definition py_max :: "nat option \<Rightarrow> nat \<Rightarrow> error + nat" where
  "py_max a b = (case a of None \<Rightarrow> Inl TypeError | Some x \<Rightarrow> Inr (max x b))"

section \<open>Constants of the script\<close>

definition SEVERITIES :: "(string \<times> string) list" where
  "SEVERITIES =
     [(''blocker'', ''blocker+critical+major''),
      (''critical'', ''blocker+critical+major''),
      (''major'', ''blocker+critical+major''),
      (''normal'', ''normal''),
      (''minor'', ''minor+trivial''),
      (''trivial'', ''minor+trivial''),
      (''enhancement'', ''enhancement'')]"

definition SEVERITIES_LIST :: "string list" where
  "SEVERITIES_LIST =
     [''enhancement'', ''trivial'', ''minor'', ''normal'', ''major'', ''critical'', ''blocker'']"

definition SEVERITIES_GROUP_LIST :: "string list" where
  "SEVERITIES_GROUP_LIST =
     [''enhancement'', ''minor+trivial'', ''normal'', ''blocker+critical+major'']"

section \<open>Bug records\<close>

text \<open>
  A bug record as the tracker returns it for the requested fields. \<open>when_utc\<close> is the
  entry's \<open>when\<close> string after \<open>strptime\<close> and \<open>pytz.utc.localize\<close>: an instant, counted
  in seconds. \<open>removed\<close> and \<open>added\<close> are the values after \<open>str(...)\<close>.
  \<open>status_version\<close> and \<open>status_successor_version\<close> are the record's values under the
  keys \<open>status_flag_version\<close> and \<open>status_flag_successor_version\<close>, \<open>assignee_email\<close> the
  value of \<open>bug_data['assigned_to_detail']['email']\<close>.
\<close>

record change =
  field_name :: string
  removed :: string
  added :: string

record history_item =
  when_utc :: int
  changes :: "change list"

record bug_data =
  bug_id :: nat
  summary :: string
  product_name :: string
  component :: string
  creation_time :: string
  severity :: string
  assignee_email :: string
  status_version :: string
  status_successor_version :: string
  history :: "history_item list"

section \<open>The severity walk of \<open>bug_handler\<close> (lines 104 to 174)\<close>

text \<open>The local variables of the walk.\<close>

record walk_state =
  pre_release_phase :: bool
  severity_highest_index_before_release :: "nat option"
  severity_index_at_release :: "nat option"
  severity_highest_index_after_release :: "nat option"
  severity_index_last_processed :: "nat option"

definition walk_init :: walk_state where
  "walk_init =
     \<lparr>pre_release_phase = True,
      severity_highest_index_before_release = None,
      severity_index_at_release = None,
      severity_highest_index_after_release = None,
      severity_index_last_processed = None\<rparr>"

text \<open>Lines 141 to 146: has the release shipped?\<close>

definition release_crossing :: "int \<Rightarrow> int \<Rightarrow> nat \<Rightarrow> nat \<Rightarrow> walk_state \<Rightarrow> error + walk_state" where
  "release_crossing release_date change_time severity_index_old severity_index_new s =
     (if pre_release_phase s \<and> change_time > release_date then
        (case py_max (severity_highest_index_before_release s) severity_index_old of
           Inl err \<Rightarrow> Inl err
         | Inr m \<Rightarrow>
             Inr (s\<lparr>pre_release_phase := False,
                    severity_index_at_release := Some severity_index_old,
                    severity_highest_index_before_release := Some m,
                    severity_highest_index_after_release := Some severity_index_new\<rparr>))
      else Inr s)"

text \<open>Lines 148 to 159: the running maxima before and after release.\<close>

definition phase_update :: "nat \<Rightarrow> nat \<Rightarrow> walk_state \<Rightarrow> error + walk_state" where
  "phase_update severity_index_old severity_index_new s =
     (if pre_release_phase s then
        (let s1 = (if severity_highest_index_before_release s = None
                   then s\<lparr>severity_highest_index_before_release := Some severity_index_old\<rparr>
                   else s)
         in case py_max (severity_highest_index_before_release s1) severity_index_new of
              Inl err \<Rightarrow> Inl err
            | Inr m \<Rightarrow> Inr (s1\<lparr>severity_highest_index_before_release := Some m\<rparr>))
      else
        (if severity_highest_index_after_release s = None
         then Inr (s\<lparr>severity_highest_index_after_release := Some severity_index_new\<rparr>)
         else (case py_max (severity_highest_index_after_release s) severity_index_new of
                 Inl err \<Rightarrow> Inl err
               | Inr m \<Rightarrow> Inr (s\<lparr>severity_highest_index_after_release := Some m\<rparr>))))"

text \<open>
  Lines 123 to 159: the inner loop over the changes of one history entry. The \<open>break\<close>
  of line 139 leaves this loop only: the outer loop goes on with the next entry.
\<close>

fun changes_loop :: "int \<Rightarrow> int \<Rightarrow> int \<Rightarrow> change list \<Rightarrow> walk_state \<Rightarrow> error + walk_state" where
  "changes_loop release_date successor_release_date change_time [] s = Inr s"
| "changes_loop release_date successor_release_date change_time (c # cs) s =
     (if field_name c = ''severity'' then
        (case list_index SEVERITIES_LIST (removed c) of
           Inl err \<Rightarrow> Inl err
         | Inr severity_index_old \<Rightarrow>
        (case list_index SEVERITIES_LIST (added c) of
           Inl err \<Rightarrow> Inl err
         | Inr severity_index_new \<Rightarrow>
             if change_time > successor_release_date then
               Inr (if severity_index_last_processed s = None
                    then s\<lparr>severity_index_last_processed := Some severity_index_old\<rparr>
                    else s)
             else
               (case release_crossing release_date change_time
                       severity_index_old severity_index_new s of
                  Inl err \<Rightarrow> Inl err
                | Inr s1 \<Rightarrow>
               (case phase_update severity_index_old severity_index_new s1 of
                  Inl err \<Rightarrow> Inl err
                | Inr s2 \<Rightarrow>
                    changes_loop release_date successor_release_date change_time cs s2))))
      else changes_loop release_date successor_release_date change_time cs s)"

text \<open>Lines 122 to 159: the outer loop over the history entries.\<close>

fun history_loop :: "int \<Rightarrow> int \<Rightarrow> history_item list \<Rightarrow> walk_state \<Rightarrow> error + walk_state" where
  "history_loop release_date successor_release_date [] s = Inr s"
| "history_loop release_date successor_release_date (historyItem # rest) s =
     (case changes_loop release_date successor_release_date
             (when_utc historyItem) (changes historyItem) s of
        Inl err \<Rightarrow> Inl err
      | Inr s1 \<Rightarrow> history_loop release_date successor_release_date rest s1)"

text \<open>Lines 160 to 168: the fallbacks after the walk.\<close>

definition walk_fallbacks :: "nat \<Rightarrow> walk_state \<Rightarrow> walk_state" where
  "walk_fallbacks severity_current_index s =
     (let s1 = (if severity_index_last_processed s = None
                then s\<lparr>severity_index_last_processed := Some severity_current_index\<rparr>
                else s)
      in if pre_release_phase s1 then
           (let s2 = (if severity_highest_index_before_release s1 = None
                      then s1\<lparr>severity_highest_index_before_release :=
                                severity_index_last_processed s1\<rparr>
                      else s1)
            in if severity_index_at_release s2 = None
               then s2\<lparr>severity_index_at_release := severity_index_last_processed s2,
                       severity_highest_index_after_release := severity_index_last_processed s2\<rparr>
               else s2)
         else s1)"

text \<open>The three derived severities and their groups (lines 169 to 174).\<close>

record derived =
  sev_before_release :: string
  sev_at_release :: string
  sev_after_release :: string
  sev_group_before_release :: nat
  sev_group_at_release :: nat
  sev_group_after_release :: nat

definition severity_group :: "string \<Rightarrow> error + nat" where
  "severity_group sev =
     (case dict_getitem (map_of SEVERITIES) sev of
        Inl err \<Rightarrow> Inl err
      | Inr grp \<Rightarrow> list_index SEVERITIES_GROUP_LIST grp)"

definition derive :: "walk_state \<Rightarrow> error + derived" where
  "derive s =
     (case list_getitem SEVERITIES_LIST (severity_highest_index_before_release s) of
        Inl err \<Rightarrow> Inl err
      | Inr sb \<Rightarrow>
     (case list_getitem SEVERITIES_LIST (severity_index_at_release s) of
        Inl err \<Rightarrow> Inl err
      | Inr sr \<Rightarrow>
     (case list_getitem SEVERITIES_LIST (severity_highest_index_after_release s) of
        Inl err \<Rightarrow> Inl err
      | Inr sa \<Rightarrow>
     (case severity_group sb of
        Inl err \<Rightarrow> Inl err
      | Inr gb \<Rightarrow>
     (case severity_group sr of
        Inl err \<Rightarrow> Inl err
      | Inr gr \<Rightarrow>
     (case severity_group sa of
        Inl err \<Rightarrow> Inl err
      | Inr ga \<Rightarrow>
          Inr \<lparr>sev_before_release = sb, sev_at_release = sr, sev_after_release = sa,
               sev_group_before_release = gb, sev_group_at_release = gr,
               sev_group_after_release = ga\<rparr>))))))"

text \<open>
  Lines 104 to 174 as one function of the bug record and the two cutoff instants: the
  severity reconstructor.
\<close>

definition reconstruct :: "int \<Rightarrow> int \<Rightarrow> bug_data \<Rightarrow> error + derived" where
  "reconstruct release_date successor_release_date bug =
     (case list_index SEVERITIES_LIST (severity bug) of
        Inl err \<Rightarrow> Inl err
      | Inr severity_current_index \<Rightarrow>
     (case history_loop release_date successor_release_date (history bug) walk_init of
        Inl err \<Rightarrow> Inl err
      | Inr s \<Rightarrow> derive (walk_fallbacks severity_current_index s)))"

section \<open>Week keys and decimal formatting\<close>

text \<open>\<open>str(n)\<close> and the \<open>{}\<close> format field, for a non-negative integer.\<close>

function str_nat :: "nat \<Rightarrow> string" where
  "str_nat n =
     (if n < 10 then [''0123456789'' ! n]
      else str_nat (n div 10) @ [''0123456789'' ! (n mod 10)])"
  by pat_completeness auto
termination
  by (relation "measure (\<lambda>n. n)") auto

declare str_nat.simps [simp del]

definition str_int :: "int \<Rightarrow> string" where
  "str_int i = (if i < 0 then ''-'' @ str_nat (nat (- i)) else str_nat (nat i))"

text \<open>\<open>WFMT.format(y, w)\<close> with \<open>WFMT = '{}-{:02d}'\<close>: the week is padded to two digits.\<close>

definition WFMT_format :: "nat \<Rightarrow> nat \<Rightarrow> string" where
  "WFMT_format y w = str_nat y @ ''-'' @ (if w < 10 then ''0'' @ str_nat w else str_nat w)"

section \<open>The cache of fetched records (lines 68 to 83)\<close>

text \<open>
  The JSON document built in \<open>bugzilla_data_to_save\<close>, and read back from a cache
  file: dictionaries (in insertion order) and, at the leaves, lists of raw bug records.
\<close>

datatype json = JDict "(string \<times> json) list" | JList "bug_data list"

text \<open>
  \<open>add_bugzilla_data_to_save(node_path, data)\<close>, by recursion on \<open>node_path\<close>. The
  source walks down and mutates in place; the model rebuilds the dictionaries on the way
  back. A node that is a list (reached through the key \<open>data\<close>) cannot be indexed by a
  string: \<open>TypeError\<close>.
\<close>

fun add_bugzilla_data_to_save :: "string list \<Rightarrow> bug_data \<Rightarrow> json \<Rightarrow> error + json" where
  "add_bugzilla_data_to_save [] data node =
     (case node of
        JDict kvs \<Rightarrow>
          (case map_of kvs ''data'' of
             None \<Rightarrow> Inl KeyError
           | Some (JList xs) \<Rightarrow> Inr (JDict (AList.update ''data'' (JList (xs @ [data])) kvs))
           | Some (JDict d) \<Rightarrow> Inl AttributeError)
      | JList xs \<Rightarrow> Inl TypeError)"
| "add_bugzilla_data_to_save (path_step # rest) data node =
     (case node of
        JDict kvs \<Rightarrow>
          (let kvs1 = (if map_of kvs path_step = None
                       then kvs @ [(path_step, JDict [(''data'', JList [])])]
                       else kvs)
           in case map_of kvs1 path_step of
                None \<Rightarrow> Inl KeyError
              | Some child \<Rightarrow>
                  (case add_bugzilla_data_to_save rest data child of
                     Inl err \<Rightarrow> Inl err
                   | Inr child1 \<Rightarrow> Inr (JDict (AList.update path_step child1 kvs1))))
      | JList xs \<Rightarrow> Inl TypeError)"

section \<open>Module-level names and the shared objects\<close>

text \<open>
  The module-level names that \<open>get_bugs\<close> and \<open>bug_handler\<close> read. Three of them stand
  for code outside the file:
  \<^item> \<open>tracker name v1 v2\<close> is the list of records the \<open>Bugzilla\<close> client hands to the
    handler for the query of phase \<open>name\<close> with \<open>v1 \<le> creation_ts < v2\<close>;
  \<^item> \<open>creation_week c\<close> is the ISO year and week of \<open>utils.get_date(c).isocalendar()\<close>;
  \<^item> \<open>weeks_opened\<close> is the list \<open>get_weeks(nightly_start, release_date)\<close>, whose
    calendar arithmetic belongs to \<open>datetime\<close>.
  The four dates are the result of \<open>productdates.get_product_dates\<close>, in seconds.
\<close>

record globals =
  product_version :: int
  nightly_start :: int
  beta_start :: int
  release_date :: int
  successor_release_date :: int
  bzdata_load_path :: "string option"
  bzdata_save_path :: "string option"
  bugzilla_data_loaded :: "json option"
  tracker :: "string \<Rightarrow> int \<Rightarrow> int \<Rightarrow> bug_data list"
  creation_week :: "string \<Rightarrow> nat \<times> nat"
  weeks_opened :: "string list"

text \<open>Truth value of a path that is \<open>None\<close> or a string: only a non-empty string is true.\<close>

definition truthy :: "string option \<Rightarrow> bool" where
  "truthy p = (case p of None \<Rightarrow> False | Some s \<Rightarrow> s \<noteq> [])"

text \<open>A row of one of the two flagged-bug lists (lines 192 to 200 and 209 to 217).\<close>

type_synonym row = "nat \<times> string \<times> string \<times> string \<times> string \<times> string \<times> string"

definition bug_row :: "bug_data \<Rightarrow> row" where
  "bug_row bug =
     (bug_id bug, product_name bug, status_version bug, status_successor_version bug,
      component bug, assignee_email bug, summary bug)"

text \<open>
  The objects the handler mutates: the weekly table \<open>data_opened\<close> (severity group to
  week key to count), the two flagged-bug lists and the cache under construction.
\<close>

record run_state =
  data_opened :: "string \<rightharpoonup> (string \<rightharpoonup> nat)"
  sev_lowered_and_increased :: "row list"
  sev_increased_after_release :: "row list"
  bugzilla_data_to_save :: json

text \<open>
  What an entry of the handler's second argument can hold: a string, one of the three
  shared objects (by reference), or a row of the weekly table.
\<close>

datatype pyval =
    VStr string
  | VDataOpened
  | VSevLowered
  | VSevIncreased
  | VWeekCounts "string \<rightharpoonup> nat"

text \<open>
  The handler's second argument: a dictionary of its own (live mode, lines 329 to 334),
  or the weekly table itself (load mode, line 244).
\<close>

datatype other_data = OtherDict "string \<rightharpoonup> pyval" | TheDataOpened

definition other_getitem :: "other_data \<Rightarrow> string \<Rightarrow> run_state \<Rightarrow> error + pyval" where
  "other_getitem other k st =
     (case other of
        OtherDict d \<Rightarrow> dict_getitem d k
      | TheDataOpened \<Rightarrow>
          (case dict_getitem (data_opened st) k of
             Inl err \<Rightarrow> Inl err
           | Inr counts \<Rightarrow> Inr (VWeekCounts counts)))"

section \<open>\<open>bug_handler\<close> (lines 97 to 230)\<close>

text \<open>
  Lines 101 and 102. A phase that is not a string is a dictionary or a list here, which
  cannot be a dictionary key: \<open>TypeError\<close>.
\<close>

definition save_bug :: "globals \<Rightarrow> pyval \<Rightarrow> bug_data \<Rightarrow> run_state \<Rightarrow> error + run_state" where
  "save_bug g phase bug st =
     (if truthy (bzdata_save_path g) then
        (case phase of
           VStr name \<Rightarrow>
             (case add_bugzilla_data_to_save [''opened'', name] bug (bugzilla_data_to_save st) of
                Inl err \<Rightarrow> Inl err
              | Inr saved \<Rightarrow> Inr (st\<lparr>bugzilla_data_to_save := saved\<rparr>))
         | _ \<Rightarrow> Inl TypeError)
      else Inr st)"

text \<open>Lines 184 to 217: the two flags, each appending the bug's row to its list.\<close>

definition lowered_and_increased :: "derived \<Rightarrow> bool" where
  "lowered_and_increased d \<longleftrightarrow>
     sev_group_before_release d > sev_group_at_release d \<and>
     sev_group_after_release d > sev_group_at_release d"

definition increased_after_release :: "derived \<Rightarrow> bool" where
  "increased_after_release d \<longleftrightarrow> sev_group_after_release d > sev_group_at_release d"

definition flag_bug :: "derived \<Rightarrow> bug_data \<Rightarrow> run_state \<Rightarrow> run_state" where
  "flag_bug d bug st =
     (let st1 = (if lowered_and_increased d
                 then st\<lparr>sev_lowered_and_increased :=
                           sev_lowered_and_increased st @ [bug_row bug]\<rparr>
                 else st)
      in if increased_after_release d
         then st1\<lparr>sev_increased_after_release :=
                    sev_increased_after_release st1 @ [bug_row bug]\<rparr>
         else st1)"

text \<open>
  Line 230, \<open>data_opened[sev_group_highest][t] += 1\<close>, on the value the handler found
  under \<open>other_data['data_opened']\<close>. Only the shared table has rows of counts; a row of
  counts indexed by a group gives an integer (or \<open>KeyError\<close>), which cannot be indexed;
  neither can a string or a list be indexed by a string.
\<close>

definition count_bug :: "pyval \<Rightarrow> string \<Rightarrow> string \<Rightarrow> run_state \<Rightarrow> error + run_state" where
  "count_bug target sev_group_highest t st =
     (case target of
        VDataOpened \<Rightarrow>
          (case dict_getitem (data_opened st) sev_group_highest of
             Inl err \<Rightarrow> Inl err
           | Inr counts \<Rightarrow>
               (case dict_getitem counts t of
                  Inl err \<Rightarrow> Inl err
                | Inr n \<Rightarrow>
                    Inr (st\<lparr>data_opened :=
                              (data_opened st)(sev_group_highest \<mapsto> counts(t \<mapsto> n + 1))\<rparr>)))
      | VWeekCounts counts \<Rightarrow>
          (case dict_getitem counts sev_group_highest of
             Inl err \<Rightarrow> Inl err
           | Inr n \<Rightarrow> Inl TypeError)
      | _ \<Rightarrow> Inl TypeError)"

definition bug_handler :: "globals \<Rightarrow> bug_data \<Rightarrow> other_data \<Rightarrow> run_state \<Rightarrow> error + run_state" where
  "bug_handler g bug other st =
     (case other_getitem other ''data_opened'' st of
        Inl err \<Rightarrow> Inl err
      | Inr target \<Rightarrow>
     (case other_getitem other ''phase'' st of
        Inl err \<Rightarrow> Inl err
      | Inr phase \<Rightarrow>
     (case save_bug g phase bug st of
        Inl err \<Rightarrow> Inl err
      | Inr st1 \<Rightarrow>
     (case reconstruct (release_date g) (successor_release_date g) bug of
        Inl err \<Rightarrow> Inl err
      | Inr d \<Rightarrow>
     (let st2 = flag_bug d bug st1;
          (year, week) = creation_week g (creation_time bug);
          t = WFMT_format year week
      in case list_getitem SEVERITIES_GROUP_LIST
                (Some (max (sev_group_before_release d) (sev_group_after_release d))) of
           Inl err \<Rightarrow> Inl err
         | Inr sev_group_highest \<Rightarrow> count_bug target sev_group_highest t st2)))))"

section \<open>\<open>get_bugs\<close> (lines 95 to 350)\<close>

text \<open>The handler called on each record of a list in turn, with the same second argument.\<close>

fun handle_all :: "globals \<Rightarrow> other_data \<Rightarrow> bug_data list \<Rightarrow> run_state \<Rightarrow> error + run_state" where
  "handle_all g other [] st = Inr st"
| "handle_all g other (bug # bugs) st =
     (case bug_handler g bug other st of
        Inl err \<Rightarrow> Inl err
      | Inr st1 \<Rightarrow> handle_all g other bugs st1)"

text \<open>Lines 232 to 236: the empty flagged lists and the table of zero counts.\<close>

definition data_opened_init :: "string list \<Rightarrow> (string \<rightharpoonup> (string \<rightharpoonup> nat))" where
  "data_opened_init weeks =
     (\<lambda>sev. if sev \<in> set (map snd SEVERITIES)
            then Some (\<lambda>w. if w \<in> set weeks then Some 0 else None)
            else None)"

definition state_init :: "globals \<Rightarrow> json \<Rightarrow> run_state" where
  "state_init g saved =
     \<lparr>data_opened = data_opened_init (weeks_opened g),
      sev_lowered_and_increased = [],
      sev_increased_after_release = [],
      bugzilla_data_to_save = saved\<rparr>"

text \<open>
  Lines 317 to 336: the sub-windows of one phase, each \<open>(v1, v2)\<close> with
  \<open>v1 \<le> creation_ts < v2\<close>; \<open>relativedelta(days=30)\<close> is 2592000 seconds.
\<close>

function phase_windows :: "int \<Rightarrow> int \<Rightarrow> (int \<times> int) list" where
  "phase_windows query_start end_date =
     (if query_start \<le> end_date
      then (query_start, min (query_start + 2592000) end_date)
             # phase_windows (query_start + 2592000) end_date
      else [])"
  by pat_completeness auto
termination
  by (relation "measure (\<lambda>(query_start, end_date). nat (end_date - query_start + 1))") auto

declare phase_windows.simps [simp del]

text \<open>Lines 298 to 336: the queries, phase by phase, as (phase name, v1, v2).\<close>

definition queries :: "globals \<Rightarrow> (string \<times> int \<times> int) list" where
  "queries g =
     map (\<lambda>w. (''nightly'', w)) (phase_windows (nightly_start g) (beta_start g)) @
     map (\<lambda>w. (''beta'', w)) (phase_windows (beta_start g) (release_date g))"

text \<open>The second argument the client passes to the handler (lines 329 to 334).\<close>

definition bugdata :: "string \<Rightarrow> other_data" where
  "bugdata name =
     OtherDict [''phase'' \<mapsto> VStr name,
                ''data_opened'' \<mapsto> VDataOpened,
                ''sev_lowered_and_increased'' \<mapsto> VSevLowered,
                ''sev_increased_after_release'' \<mapsto> VSevIncreased]"

text \<open>
  Lines 327 to 341. Each query is created with the handler and its second argument;
  the queries are then waited for one after the other, and each hands the records of its
  answer to the handler: a batch per sub-window, tagged with its phase name.
\<close>

fun handle_batches ::
  "globals \<Rightarrow> (string \<times> bug_data list) list \<Rightarrow> run_state \<Rightarrow> error + run_state" where
  "handle_batches g [] st = Inr st"
| "handle_batches g ((name, bugs) # batches) st =
     (case handle_all g (bugdata name) bugs st of
        Inl err \<Rightarrow> Inl err
      | Inr st1 \<Rightarrow> handle_batches g batches st1)"

definition run_queries :: "globals \<Rightarrow> (string \<times> int \<times> int) list \<Rightarrow> run_state \<Rightarrow> error + run_state" where
  "run_queries g qs st =
     handle_batches g (map (\<lambda>(name, v1, v2). (name, tracker g name v1 v2)) qs) st"

text \<open>
  Line 243, \<open>bugzilla_data_loaded['opened']['nightly']['data']\<close>: indexing \<open>None\<close> or a
  list by a string is a \<open>TypeError\<close>, a missing key a \<open>KeyError\<close>.
\<close>

definition json_getitem :: "json \<Rightarrow> string \<Rightarrow> error + json" where
  "json_getitem node k =
     (case node of
        JDict kvs \<Rightarrow> dict_getitem (map_of kvs) k
      | JList xs \<Rightarrow> Inl TypeError)"

text \<open>
  When the value under \<open>data\<close> is a dictionary, the loop of line 243 iterates its keys
  and the handler is called on a string: after the two look-ups of lines 98 and 99, either
  line 102 fails on a phase that is a row of the table, or line 116 fails to index the
  string; both are a \<open>TypeError\<close>.
\<close>

fun handle_keys :: "string list \<Rightarrow> run_state \<Rightarrow> error + run_state" where
  "handle_keys [] st = Inr st"
| "handle_keys (k # ks) st =
     (case other_getitem TheDataOpened ''data_opened'' st of
        Inl err \<Rightarrow> Inl err
      | Inr target \<Rightarrow>
     (case other_getitem TheDataOpened ''phase'' st of
        Inl err \<Rightarrow> Inl err
      | Inr phase \<Rightarrow> Inl TypeError))"

text \<open>
  \<open>get_bugs\<close>, from the cache built so far (\<open>bugzilla_data_to_save\<close> is a module-level
  object) to the state it leaves. Lines 238 and 239 build a second table that nothing
  reads, and lines 343 and 344 add the first-beta label, which no property below concerns;
  neither is part of the state.
\<close>

definition get_bugs :: "globals \<Rightarrow> json \<Rightarrow> error + run_state" where
  "get_bugs g saved =
     (let st = state_init g saved
      in if truthy (bzdata_load_path g) then
           (case bugzilla_data_loaded g of
              None \<Rightarrow> Inl TypeError
            | Some loaded \<Rightarrow>
           (case json_getitem loaded ''opened'' of
              Inl err \<Rightarrow> Inl err
            | Inr opened \<Rightarrow>
           (case json_getitem opened ''nightly'' of
              Inl err \<Rightarrow> Inl err
            | Inr nightly \<Rightarrow>
           (case json_getitem nightly ''data'' of
              Inl err \<Rightarrow> Inl err
            | Inr (JList bugs) \<Rightarrow> handle_all g TheDataOpened bugs st
            | Inr (JDict kvs) \<Rightarrow> handle_keys (map fst kvs) st))))
         else run_queries g (queries g) st)"

section \<open>The script body (lines 414 to 469)\<close>

text \<open>
  The parsed command line. Both flags are declared with \<open>nargs='?'\<close> and
  \<open>default=argparse.SUPPRESS\<close>: the attribute is absent when the flag is not given
  (\<open>None\<close> here), \<open>None\<close> when the flag is given without a path (\<open>Some None\<close>), and the
  path otherwise.
\<close>

record args =
  arg_product_version :: int
  arg_bzdata_load :: "string option option"
  arg_bzdata_save :: "string option option"

text \<open>
  What the script takes from outside the file: \<open>productdates.get_product_dates\<close>, the
  tracker's answers, the calendar of \<open>utils\<close> and \<open>datetime\<close>, and the lists
  \<open>get_weeks\<close> returns.
\<close>

record outside =
  get_product_dates :: "int \<Rightarrow> int \<times> int \<times> int \<times> int"
  bugzilla :: "string \<Rightarrow> int \<Rightarrow> int \<Rightarrow> bug_data list"
  isocalendar_of :: "string \<Rightarrow> nat \<times> nat"
  get_weeks :: "int \<Rightarrow> int \<Rightarrow> string list"

text \<open>
  A file on disk: a JSON document, or the report that \<open>write_csv\<close> renders from the
  three values \<open>get_bugs\<close> returns (the rendering itself is formatting only).
\<close>

datatype disk_file =
    JsonFile json
  | CsvFile "string \<rightharpoonup> (string \<rightharpoonup> nat)" "row list" "row list"

definition default_bzdata_path :: "int \<Rightarrow> string" where
  "default_bzdata_path version = ''data/bugzilla_data_'' @ str_int version @ ''.json''"

definition csv_path :: "int \<Rightarrow> string" where
  "csv_path major = ''data/bugs_count_'' @ str_int major @ ''.csv''"

text \<open>Lines 440 to 448 and 453 to 461: the same resolution for either flag.\<close>

definition resolve_path :: "int \<Rightarrow> string option option \<Rightarrow> string option" where
  "resolve_path version flag =
     (case flag of
        None \<Rightarrow> None
      | Some given \<Rightarrow> if truthy given then given else Some (default_bzdata_path version))"

text \<open>Lines 449 and 450: open the file and parse it.\<close>

definition json_load :: "(string \<rightharpoonup> disk_file) \<Rightarrow> string \<Rightarrow> error + json" where
  "json_load fs path =
     (case fs path of
        None \<Rightarrow> Inl FileNotFoundError
      | Some (JsonFile doc) \<Rightarrow> Inr doc
      | Some (CsvFile t l i) \<Rightarrow> Inl ValueError)"

text \<open>
  Lines 465 to 469: the cache is written and the message logged. The result of the
  script is the file system it leaves and the messages passed to \<open>log\<close>.
\<close>

definition save_cache ::
  "int \<Rightarrow> string option \<Rightarrow> json \<Rightarrow> (string \<rightharpoonup> disk_file) \<times> string list
     \<Rightarrow> (string \<rightharpoonup> disk_file) \<times> string list" where
  "save_cache version save_path saved out =
     (case save_path of
        None \<Rightarrow> out
      | Some path \<Rightarrow>
          if path \<noteq> []
          then ((fst out)(default_bzdata_path version \<mapsto> JsonFile saved),
                snd out @ [''Saved Bugzilla data to '' @ path])
          else out)"

text \<open>
  The script from the parsed command line to its outputs. Line 438 takes the four dates;
  lines 440 to 451 resolve the load path and read the file; lines 453 to 461 resolve the
  save path; line 463 runs \<open>get_bugs\<close> and writes the report; lines 465 to 469 save the
  cache.
\<close>

definition main :: "outside \<Rightarrow> args \<Rightarrow> (string \<rightharpoonup> disk_file) \<Rightarrow> error + (string \<rightharpoonup> disk_file) \<times> string list" where
  "main env a fs =
     (let version = arg_product_version a;
          (nightly, beta, release, successor_release) = get_product_dates env version;
          load_path = resolve_path version (arg_bzdata_load a)
      in case (case load_path of
                 None \<Rightarrow> Inr (None, [])
               | Some path \<Rightarrow>
                   (case json_load fs path of
                      Inl err \<Rightarrow> Inl err
                    | Inr doc \<Rightarrow> Inr (Some doc, [''Loaded Bugzilla data from '' @ path]))) of
           Inl err \<Rightarrow> Inl err
         | Inr (loaded, messages) \<Rightarrow>
             (let save_path = resolve_path version (arg_bzdata_save a);
                  g = \<lparr>product_version = version,
                       nightly_start = nightly,
                       beta_start = beta,
                       release_date = release,
                       successor_release_date = successor_release,
                       bzdata_load_path = load_path,
                       bzdata_save_path = save_path,
                       bugzilla_data_loaded = loaded,
                       tracker = bugzilla env,
                       creation_week = isocalendar_of env,
                       weeks_opened = get_weeks env nightly release\<rparr>
              in case get_bugs g (JDict []) of
                   Inl err \<Rightarrow> Inl err
                 | Inr st \<Rightarrow>
                     Inr (save_cache version save_path (bugzilla_data_to_save st)
                            (fs(csv_path version \<mapsto>
                                  CsvFile (data_opened st) (sev_lowered_and_increased st)
                                    (sev_increased_after_release st)),
                             messages))))"
section \<open>Notions the properties are stated with\<close>

text \<open>A change of the severity field, and a change whose two values are severities.\<close>

definition is_severity_change :: "change \<Rightarrow> bool" where
  "is_severity_change c \<longleftrightarrow> field_name c = ''severity''"

definition valid_change :: "change \<Rightarrow> bool" where
  "valid_change c \<longleftrightarrow>
     (is_severity_change c \<longrightarrow>
        removed c \<in> set SEVERITIES_LIST \<and> added c \<in> set SEVERITIES_LIST)"

text \<open>
  A record whose severity values are all members of the fixed enumeration: the current
  severity and both values of every severity change.
\<close>

definition names_valid :: "bug_data \<Rightarrow> bool" where
  "names_valid bug \<longleftrightarrow>
     severity bug \<in> set SEVERITIES_LIST \<and>
     list_all (\<lambda>h. list_all valid_change (changes h)) (history bug)"

text \<open>The position of a severity in \<open>SEVERITIES_LIST\<close> (0 for a value outside it).\<close>

definition sev_index :: "string \<Rightarrow> nat" where
  "sev_index name = (case list_index SEVERITIES_LIST name of Inl err \<Rightarrow> 0 | Inr i \<Rightarrow> i)"

text \<open>An entry is in the window when it is not after the successor release.\<close>

definition in_window :: "int \<Rightarrow> history_item \<Rightarrow> bool" where
  "in_window succ h \<longleftrightarrow> \<not> when_utc h > succ"

text \<open>
  The first out-of-window change: the first severity change of the first entry after
  the cutoff that holds one.
\<close>

fun first_out_of_window :: "int \<Rightarrow> history_item list \<Rightarrow> change option" where
  "first_out_of_window succ [] = None"
| "first_out_of_window succ (h # hs) =
     (if when_utc h > succ then
        (case find is_severity_change (changes h) of
           Some c \<Rightarrow> Some c
         | None \<Rightarrow> first_out_of_window succ hs)
      else first_out_of_window succ hs)"

text \<open>
  The record with its history truncated at the cutoff: the entries after the successor
  release are dropped, and the old value of the first out-of-window change, when there is
  one, stands for the severity the record ends with.
\<close>

definition truncate_at_cutoff :: "int \<Rightarrow> bug_data \<Rightarrow> bug_data" where
  "truncate_at_cutoff succ bug =
     bug\<lparr>history := filter (in_window succ) (history bug),
         severity := (case first_out_of_window succ (history bug) of
                        None \<Rightarrow> severity bug
                      | Some c \<Rightarrow> removed c)\<rparr>"

definition merge_lp :: "nat option \<Rightarrow> change option \<Rightarrow> nat option" where
  "merge_lp l first =
     (case l of
        None \<Rightarrow> map_option (\<lambda>c. sev_index (removed c)) first
      | Some i \<Rightarrow> Some i)"

text \<open>The severity changes of a history, in the order the walk meets them.\<close>

definition severity_changes :: "history_item list \<Rightarrow> change list" where
  "severity_changes hs = filter is_severity_change (concat (map changes hs))"

text \<open>
  The running maximum \<open>b\<close> for \<open>severity_before\<close>, extended by a list of severity
  changes: when unset it is seeded with the old value of the first change, and it is the
  greatest of that and the new value of every change. \<open>running_max\<close> takes the changes
  one at a time.
\<close>

definition maximum_with :: "nat option \<Rightarrow> change list \<Rightarrow> nat option" where
  "maximum_with b cs =
     (case cs of
        [] \<Rightarrow> b
      | c # rest \<Rightarrow>
          Some (Max (set ((case b of None \<Rightarrow> sev_index (removed c) | Some x \<Rightarrow> x)
                            # map (\<lambda>x. sev_index (added x)) cs))))"

fun running_max :: "nat option \<Rightarrow> change list \<Rightarrow> nat option" where
  "running_max b [] = b"
| "running_max b (c # cs) =
     running_max
       (Some (max (case b of None \<Rightarrow> sev_index (removed c) | Some x \<Rightarrow> x)
                  (sev_index (added c)))) cs"

text \<open>A cell of the weekly table, and the week key of a bug (lines 226 to 228).\<close>

definition cell :: "(string \<rightharpoonup> (string \<rightharpoonup> nat)) \<Rightarrow> string \<Rightarrow> string \<Rightarrow> nat option" where
  "cell table grp week = (case table grp of None \<Rightarrow> None | Some counts \<Rightarrow> counts week)"

definition week_key :: "globals \<Rightarrow> bug_data \<Rightarrow> string" where
  "week_key g bug = (case creation_week g (creation_time bug) of (year, week) \<Rightarrow> WFMT_format year week)"

text \<open>
  The key pair a bug is counted under, when the reconstructor returns: the higher of
  the groups of \<open>severity_before\<close> and \<open>severity_after\<close>, and the week key.
\<close>

definition bucket :: "globals \<Rightarrow> bug_data \<Rightarrow> (string \<times> string) option" where
  "bucket g bug =
     (case reconstruct (release_date g) (successor_release_date g) bug of
        Inl err \<Rightarrow> None
      | Inr d \<Rightarrow>
          Some (SEVERITIES_GROUP_LIST !
                  max (sev_group_before_release d) (sev_group_after_release d),
                week_key g bug))"

text \<open>A bug the handler can count in a table: its key pair exists and names a cell.\<close>

definition countable :: "globals \<Rightarrow> (string \<rightharpoonup> (string \<rightharpoonup> nat)) \<Rightarrow> bug_data \<Rightarrow> bool" where
  "countable g table bug =
     (case bucket g bug of
        None \<Rightarrow> False
      | Some (grp, week) \<Rightarrow> cell table grp week \<noteq> None)"

text \<open>One more bug in a cell of the table.\<close>

definition bump ::
  "(string \<rightharpoonup> (string \<rightharpoonup> nat)) \<Rightarrow> string \<times> string \<Rightarrow> (string \<rightharpoonup> (string \<rightharpoonup> nat))" where
  "bump table key =
     (case table (fst key) of
        None \<Rightarrow> table
      | Some counts \<Rightarrow>
          (case counts (snd key) of
             None \<Rightarrow> table
           | Some n \<Rightarrow> table(fst key \<mapsto> counts(snd key \<mapsto> n + 1))))"

text \<open>The rows a bug adds to the two flagged lists.\<close>

definition rows_lowered :: "globals \<Rightarrow> bug_data \<Rightarrow> row list" where
  "rows_lowered g bug =
     (case reconstruct (release_date g) (successor_release_date g) bug of
        Inl err \<Rightarrow> []
      | Inr d \<Rightarrow> if lowered_and_increased d then [bug_row bug] else [])"

definition rows_increased :: "globals \<Rightarrow> bug_data \<Rightarrow> row list" where
  "rows_increased g bug =
     (case reconstruct (release_date g) (successor_release_date g) bug of
        Inl err \<Rightarrow> []
      | Inr d \<Rightarrow> if increased_after_release d then [bug_row bug] else [])"

text \<open>
  The cache is ready for a record of any phase: it is a dictionary, and under
  \<open>opened\<close>, if present, every phase node is a dictionary with a list under \<open>data\<close>.
\<close>

fun phase_node_ok :: "json \<Rightarrow> bool" where
  "phase_node_ok (JDict kvs) =
     (case map_of kvs ''data'' of Some (JList xs) \<Rightarrow> True | _ \<Rightarrow> False)"
| "phase_node_ok _ = False"

definition save_ready :: "json \<Rightarrow> bool" where
  "save_ready saved =
     (case saved of
        JDict kvs \<Rightarrow>
          (case map_of kvs ''opened'' of
             None \<Rightarrow> True
           | Some (JDict phases) \<Rightarrow>
               list_all (\<lambda>(name, node). name = ''data'' \<or> phase_node_ok node) phases
           | Some _ \<Rightarrow> False)
      | _ \<Rightarrow> False)"

abbreviation phases_ok :: "(string \<times> json) list \<Rightarrow> bool" where
  "phases_ok \<equiv> list_all (\<lambda>(name, node). name = ''data'' \<or> phase_node_ok node)"

text \<open>
  The state a run reaches from \<open>st\<close> when the handler has counted and flagged every
  bug of a list: each bug added to its cell, its rows appended, the cache still ready.
\<close>

definition aggregate_after :: "globals \<Rightarrow> bug_data list \<Rightarrow> run_state \<Rightarrow> run_state \<Rightarrow> bool" where
  "aggregate_after g bugs st st1 \<longleftrightarrow>
     data_opened st1 = foldl bump (data_opened st) (map (\<lambda>b. the (bucket g b)) bugs) \<and>
     sev_lowered_and_increased st1 =
       sev_lowered_and_increased st @ concat (map (rows_lowered g) bugs) \<and>
     sev_increased_after_release st1 =
       sev_increased_after_release st @ concat (map (rows_increased g) bugs) \<and>
     save_ready (bugzilla_data_to_save st1)"

text \<open>
  Two runs have the same aggregate output: both raise, or both return with the same
  weekly table and the same flagged bugs, as multisets.
\<close>

definition same_aggregate :: "error + run_state \<Rightarrow> error + run_state \<Rightarrow> bool" where
  "same_aggregate r1 r2 =
     (case r1 of
        Inl e1 \<Rightarrow> (case r2 of Inl e2 \<Rightarrow> True | Inr b \<Rightarrow> False)
      | Inr a \<Rightarrow>
          (case r2 of
             Inl e2 \<Rightarrow> False
           | Inr b \<Rightarrow>
               data_opened a = data_opened b \<and>
               mset (sev_lowered_and_increased a) = mset (sev_lowered_and_increased b) \<and>
               mset (sev_increased_after_release a) = mset (sev_increased_after_release b)))"

text \<open>Example records for the concrete instances below.\<close>

definition example_bug :: bug_data where
  "example_bug =
     \<lparr>bug_id = 1500000, summary = ''Crash on startup'', product_name = ''Core'',
      component = ''General'', creation_time = ''2019-10-01T12:00:00Z'',
      severity = ''normal'', assignee_email = ''nobody@mozilla.org'',
      status_version = ''affected'', status_successor_version = ''---'',
      history = []\<rparr>"

definition severity_change :: "int \<Rightarrow> string \<Rightarrow> string \<Rightarrow> history_item" where
  "severity_change t old new =
     \<lparr>when_utc = t, changes = [\<lparr>field_name = ''severity'', removed = old, added = new\<rparr>]\<rparr>"

definition other_change :: "int \<Rightarrow> history_item" where
  "other_change t =
     \<lparr>when_utc = t, changes = [\<lparr>field_name = ''status'', removed = ''NEW'', added = ''ASSIGNED''\<rparr>]\<rparr>"

definition example_env :: outside where
  "example_env =
     \<lparr>get_product_dates = (\<lambda>version. (0, 1296000, 2592000, 5184000)),
      bugzilla = (\<lambda>name v1 v2. if name = ''nightly'' \<and> v1 = 0 then [example_bug] else []),
      isocalendar_of = (\<lambda>c. (2019, 40)),
      get_weeks = (\<lambda>start_date end_date.
                     [''2019-40'', ''2019-41'', ''2019-42'', ''2019-43'', ''2019-44''])\<rparr>"

definition example_globals :: globals where
  "example_globals =
     \<lparr>product_version = 70, nightly_start = 0, beta_start = 1296000,
      release_date = 2592000, successor_release_date = 5184000,
      bzdata_load_path = None, bzdata_save_path = Some ''data/bugzilla_data_70.json'',
      bugzilla_data_loaded = None,
      tracker = bugzilla example_env,
      creation_week = isocalendar_of example_env,
      weeks_opened = get_weeks example_env 0 2592000\<rparr>"

definition example_raised_bug :: bug_data where
  "example_raised_bug =
     example_bug\<lparr>bug_id := 1500001, severity := ''critical'',
                 history := [severity_change 864000 ''normal'' ''minor'',
                             severity_change 3456000 ''minor'' ''critical'']\<rparr>"

section \<open>Lemmas on the primitives and the walk\<close>

lemma list_index_Inr: "list_index xs x = Inr i \<Longrightarrow> i < length xs \<and> xs ! i = x"
  by (induction xs arbitrary: i) (auto split: if_splits sum.splits)

lemma list_index_mem: "x \<in> set xs \<Longrightarrow> \<exists>i. list_index xs x = Inr i"
  by (induction xs) auto

lemma severity_group_valid:
  "sev \<in> set SEVERITIES_LIST \<Longrightarrow> \<exists>grp. severity_group sev = Inr grp \<and> grp < 4"
  by (auto simp: SEVERITIES_LIST_def severity_group_def SEVERITIES_def dict_getitem_def
      SEVERITIES_GROUP_LIST_def)

lemma derive_valid:
  assumes "severity_highest_index_before_release s = Some a" "a < length SEVERITIES_LIST"
    and "severity_index_at_release s = Some b" "b < length SEVERITIES_LIST"
    and "severity_highest_index_after_release s = Some c" "c < length SEVERITIES_LIST"
  shows "\<exists>d. derive s = Inr d \<and> sev_before_release d = SEVERITIES_LIST ! a \<and>
           sev_at_release d = SEVERITIES_LIST ! b \<and> sev_after_release d = SEVERITIES_LIST ! c \<and>
           severity_group (SEVERITIES_LIST ! a) = Inr (sev_group_before_release d) \<and>
           severity_group (SEVERITIES_LIST ! b) = Inr (sev_group_at_release d) \<and>
           severity_group (SEVERITIES_LIST ! c) = Inr (sev_group_after_release d)"
proof -
  obtain ga where ga: "severity_group (SEVERITIES_LIST ! a) = Inr ga"
    using severity_group_valid[of "SEVERITIES_LIST ! a"] assms(2) by auto
  obtain gb where gb: "severity_group (SEVERITIES_LIST ! b) = Inr gb"
    using severity_group_valid[of "SEVERITIES_LIST ! b"] assms(4) by auto
  obtain gc where gc: "severity_group (SEVERITIES_LIST ! c) = Inr gc"
    using severity_group_valid[of "SEVERITIES_LIST ! c"] assms(6) by auto
  show ?thesis
    using assms ga gb gc by (simp add: derive_def list_getitem_def)
qed

lemma changes_loop_no_severity:
  "\<forall>c \<in> set cs. field_name c \<noteq> ''severity'' \<Longrightarrow> changes_loop rel succ t cs s = Inr s"
  by (induction cs) auto

lemma history_loop_no_severity:
  "\<forall>h \<in> set hs. \<forall>c \<in> set (changes h). field_name c \<noteq> ''severity'' \<Longrightarrow>
   history_loop rel succ hs s = Inr s"
  by (induction hs) (auto simp: changes_loop_no_severity)

lemma sev_index_eq:
  assumes "name \<in> set SEVERITIES_LIST"
  shows "list_index SEVERITIES_LIST name = Inr (sev_index name)"
proof -
  obtain i where "list_index SEVERITIES_LIST name = Inr i"
    using list_index_mem[OF assms] by blast
  then show ?thesis by (simp add: sev_index_def)
qed

lemma sev_index_less:
  "name \<in> set SEVERITIES_LIST \<Longrightarrow> sev_index name < length SEVERITIES_LIST"
  using list_index_Inr[OF sev_index_eq] by simp

lemma sev_index_nth:
  "name \<in> set SEVERITIES_LIST \<Longrightarrow> SEVERITIES_LIST ! sev_index name = name"
  using list_index_Inr[OF sev_index_eq] by simp

lemma changes_loop_out:
  "t > succ \<Longrightarrow> list_all valid_change cs \<Longrightarrow>
   changes_loop rel succ t cs s =
     Inr (case find is_severity_change cs of
            None \<Rightarrow> s
          | Some c \<Rightarrow> if severity_index_last_processed s = None
                      then s\<lparr>severity_index_last_processed := Some (sev_index (removed c))\<rparr>
                      else s)"
proof (induction cs)
  case Nil
  then show ?case by simp
next
  case (Cons c cs)
  show ?case
  proof (cases "is_severity_change c")
    case False
    then have "field_name c \<noteq> ''severity''"
      by (simp add: is_severity_change_def)
    then show ?thesis using Cons False by simp
  next
    case True
    then have f: "field_name c = ''severity''"
      by (simp add: is_severity_change_def)
    have "removed c \<in> set SEVERITIES_LIST" "added c \<in> set SEVERITIES_LIST"
      using Cons.prems(2) True by (simp_all add: valid_change_def)
    then have "list_index SEVERITIES_LIST (removed c) = Inr (sev_index (removed c))"
      "list_index SEVERITIES_LIST (added c) = Inr (sev_index (added c))"
      by (simp_all add: sev_index_eq)
    then show ?thesis using f True Cons.prems(1) by simp
  qed
qed

lemma release_crossing_lp:
  "release_crossing rel t io inew (s\<lparr>severity_index_last_processed := l\<rparr>) =
     (case release_crossing rel t io inew s of
        Inl err \<Rightarrow> Inl err
      | Inr s1 \<Rightarrow> Inr (s1\<lparr>severity_index_last_processed := l\<rparr>))"
  by (simp add: release_crossing_def py_max_def split: option.splits)

lemma phase_update_lp:
  "phase_update io inew (s\<lparr>severity_index_last_processed := l\<rparr>) =
     (case phase_update io inew s of
        Inl err \<Rightarrow> Inl err
      | Inr s1 \<Rightarrow> Inr (s1\<lparr>severity_index_last_processed := l\<rparr>))"
  by (simp add: phase_update_def py_max_def Let_def split: option.splits)

lemma changes_loop_in_lp:
  "\<not> t > succ \<Longrightarrow>
   changes_loop rel succ t cs (s\<lparr>severity_index_last_processed := l\<rparr>) =
     (case changes_loop rel succ t cs s of
        Inl err \<Rightarrow> Inl err
      | Inr s1 \<Rightarrow> Inr (s1\<lparr>severity_index_last_processed := l\<rparr>))"
proof (induction cs arbitrary: s)
  case Nil
  then show ?case by simp
next
  case (Cons c cs)
  note IH = Cons.IH[OF Cons.prems]
  show ?case
  proof (cases "field_name c = ''severity''")
    case False
    then show ?thesis by (simp add: IH)
  next
    case sev: True
    show ?thesis
    proof (cases "list_index SEVERITIES_LIST (removed c)")
      case (Inl e)
      then show ?thesis using sev by simp
    next
      case io: (Inr io)
      show ?thesis
      proof (cases "list_index SEVERITIES_LIST (added c)")
        case (Inl e)
        then show ?thesis using sev io by simp
      next
        case inew: (Inr inew)
        show ?thesis
        proof (cases "release_crossing rel t io inew s")
          case (Inl e)
          then show ?thesis
            using sev io inew Cons.prems by (simp add: release_crossing_lp)
        next
          case s1: (Inr s1)
          show ?thesis
          proof (cases "phase_update io inew s1")
            case (Inl e)
            then show ?thesis
              using sev io inew s1 Cons.prems
              by (simp add: release_crossing_lp phase_update_lp)
          next
            case (Inr s2)
            then show ?thesis
              using sev io inew s1 Cons.prems
              by (simp add: release_crossing_lp phase_update_lp IH)
          qed
        qed
      qed
    qed
  qed
qed

lemma history_loop_in_lp:
  "list_all (in_window succ) hs \<Longrightarrow>
   history_loop rel succ hs (s\<lparr>severity_index_last_processed := l\<rparr>) =
     (case history_loop rel succ hs s of
        Inl err \<Rightarrow> Inl err
      | Inr s1 \<Rightarrow> Inr (s1\<lparr>severity_index_last_processed := l\<rparr>))"
proof (induction hs arbitrary: s)
  case Nil
  then show ?case by simp
next
  case (Cons h hs)
  then show ?case
    by (cases "changes_loop rel succ (when_utc h) (changes h) s")
       (simp_all add: in_window_def changes_loop_in_lp)
qed

lemma history_loop_in_keeps_lp:
  assumes "list_all (in_window succ) hs" "history_loop rel succ hs s = Inr s1"
  shows "severity_index_last_processed s1 = severity_index_last_processed s"
proof -
  let ?l = "severity_index_last_processed s"
  have "history_loop rel succ hs (s\<lparr>severity_index_last_processed := ?l\<rparr>)
          = Inr (s1\<lparr>severity_index_last_processed := ?l\<rparr>)"
    using history_loop_in_lp[OF assms(1), where rel=rel and s=s and l="?l"] assms(2) by simp
  then have "s1\<lparr>severity_index_last_processed := ?l\<rparr> = s1"
    using assms(2) by simp
  then have "severity_index_last_processed (s1\<lparr>severity_index_last_processed := ?l\<rparr>)
     = severity_index_last_processed s1" by simp
  then show ?thesis by simp
qed

lemma history_loop_filter:
  "list_all (\<lambda>h. list_all valid_change (changes h)) hs \<Longrightarrow>
   history_loop rel succ hs s =
     (case history_loop rel succ (filter (in_window succ) hs) s of
        Inl err \<Rightarrow> Inl err
      | Inr s1 \<Rightarrow>
          Inr (s1\<lparr>severity_index_last_processed :=
                    merge_lp (severity_index_last_processed s) (first_out_of_window succ hs)\<rparr>))"
proof (induction hs arbitrary: s)
  case Nil
  then show ?case by (simp add: merge_lp_def split: option.splits)
next
  case (Cons h hs)
  have valid_h: "list_all valid_change (changes h)"
    and valid_hs: "list_all (\<lambda>h. list_all valid_change (changes h)) hs"
    using Cons.prems by simp_all
  note IH = Cons.IH[OF valid_hs]
  let ?F = "filter (in_window succ) hs"
  have filt: "list_all (in_window succ) ?F"
    by (simp add: list_all_iff)
  show ?case
  proof (cases "when_utc h > succ")
    case True
    define s1 where "s1 = (case find is_severity_change (changes h) of
            None \<Rightarrow> s
          | Some c \<Rightarrow> if severity_index_last_processed s = None
                      then s\<lparr>severity_index_last_processed := Some (sev_index (removed c))\<rparr>
                      else s)"
    have step: "changes_loop rel succ (when_utc h) (changes h) s = Inr s1"
      unfolding s1_def using changes_loop_out[OF True valid_h] by simp
    have s1: "s1 = s\<lparr>severity_index_last_processed := severity_index_last_processed s1\<rparr>"
      unfolding s1_def by (simp split: option.splits)
    have filter_eq: "filter (in_window succ) (h # hs) = ?F"
      using True by (simp add: in_window_def)
    have lhs: "history_loop rel succ (h # hs) s = history_loop rel succ hs s1"
      using step by simp
    have shift: "history_loop rel succ ?F s1 =
       (case history_loop rel succ ?F s of
        Inl err \<Rightarrow> Inl err
      | Inr s2 \<Rightarrow> Inr (s2\<lparr>severity_index_last_processed := severity_index_last_processed s1\<rparr>))"
      using history_loop_in_lp[OF filt, where rel=rel and s=s
          and l="severity_index_last_processed s1"] s1 by simp
    have merge: "merge_lp (severity_index_last_processed s1) (first_out_of_window succ hs)
        = merge_lp (severity_index_last_processed s) (first_out_of_window succ (h # hs))"
      unfolding s1_def using True by (auto simp: merge_lp_def split: option.splits)
    show ?thesis
      unfolding lhs filter_eq IH[of s1] shift merge
      by (cases "history_loop rel succ ?F s") simp_all
  next
    case False
    have filter_eq: "filter (in_window succ) (h # hs) = h # ?F"
      using False by (simp add: in_window_def)
    have fo: "first_out_of_window succ (h # hs) = first_out_of_window succ hs"
      using False by simp
    show ?thesis
    proof (cases "changes_loop rel succ (when_utc h) (changes h) s")
      case (Inl e)
      then show ?thesis unfolding filter_eq by simp
    next
      case (Inr s1)
      have "history_loop rel succ [h] s = Inr s1"
        using Inr by simp
      then have keep: "severity_index_last_processed s1 = severity_index_last_processed s"
        using history_loop_in_keeps_lp[where succ=succ and hs="[h]" and rel=rel and s=s and ?s1.0=s1]
          False by (simp add: in_window_def)
      have "history_loop rel succ (h # hs) s = history_loop rel succ hs s1"
        using Inr by simp
      moreover have "history_loop rel succ (h # ?F) s = history_loop rel succ ?F s1"
        using Inr by simp
      ultimately show ?thesis
        unfolding filter_eq fo using IH[of s1] unfolding keep by simp
    qed
  qed
qed

lemma first_out_of_window_valid:
  "list_all (\<lambda>h. list_all valid_change (changes h)) hs \<Longrightarrow>
   first_out_of_window succ hs = Some c \<Longrightarrow>
   removed c \<in> set SEVERITIES_LIST"
proof (induction hs)
  case Nil
  then show ?case by simp
next
  case (Cons h hs)
  show ?case
  proof (cases "when_utc h > succ \<and> find is_severity_change (changes h) \<noteq> None")
    case True
    then have f: "find is_severity_change (changes h) = Some c"
      using Cons.prems(2) by auto
    then have "is_severity_change c" "c \<in> set (changes h)"
      by (auto simp: find_Some_iff)
    moreover have "list_all valid_change (changes h)"
      using Cons.prems(1) by simp
    ultimately show ?thesis
      by (auto simp: list_all_iff valid_change_def)
  next
    case False
    then have "first_out_of_window succ hs = Some c"
      using Cons.prems(2) by (auto split: if_splits option.splits)
    then show ?thesis using Cons.IH Cons.prems(1) by simp
  qed
qed

lemma walk_fallbacks_lp:
  "severity_index_last_processed s = None \<Longrightarrow>
   walk_fallbacks ci (s\<lparr>severity_index_last_processed := Some i\<rparr>) = walk_fallbacks i s"
  by (simp add: walk_fallbacks_def Let_def)

lemma filter_in_window_all: "list_all (in_window succ) (filter (in_window succ) hs)"
  by (simp add: list_all_iff)

lemma sorted_filter_takeWhile:
  "sorted (map when_utc hs) \<Longrightarrow>
   filter (in_window succ) hs = takeWhile (in_window succ) hs"
proof (induction hs)
  case Nil
  then show ?case by simp
next
  case (Cons h hs)
  show ?case
  proof (cases "in_window succ h")
    case True
    then show ?thesis using Cons by simp
  next
    case False
    then have "\<forall>x \<in> set hs. \<not> in_window succ x"
      using Cons.prems by (auto simp: in_window_def)
    then have "filter (in_window succ) hs = []"
      by (simp add: filter_empty_conv)
    then show ?thesis using False by simp
  qed
qed

lemma reconstruct_truncate:
  assumes "names_valid bug"
  shows "reconstruct rel succ bug = reconstruct rel succ (truncate_at_cutoff succ bug)"
proof -
  let ?hs = "history bug"
  let ?F = "filter (in_window succ) ?hs"
  let ?fo = "first_out_of_window succ ?hs"
  have valid: "list_all (\<lambda>h. list_all valid_change (changes h)) ?hs"
    and cur: "severity bug \<in> set SEVERITIES_LIST"
    using assms by (simp_all add: names_valid_def)
  have ci: "list_index SEVERITIES_LIST (severity bug) = Inr (sev_index (severity bug))"
    using cur by (rule sev_index_eq)
  have lp_init: "severity_index_last_processed walk_init = None"
    by (simp add: walk_init_def)
  have walk: "history_loop rel succ ?hs walk_init =
     (case history_loop rel succ ?F walk_init of
        Inl err \<Rightarrow> Inl err
      | Inr s1 \<Rightarrow> Inr (s1\<lparr>severity_index_last_processed := merge_lp None ?fo\<rparr>))"
    using history_loop_filter[OF valid, of rel succ walk_init] unfolding lp_init .
  have hist_t: "history (truncate_at_cutoff succ bug) = ?F"
    by (simp add: truncate_at_cutoff_def)
  show ?thesis
  proof (cases ?fo)
    case None
    have sev_t: "severity (truncate_at_cutoff succ bug) = severity bug"
      using None by (simp add: truncate_at_cutoff_def)
    show ?thesis
    proof (cases "history_loop rel succ ?F walk_init")
      case (Inl e)
      then show ?thesis
        using walk by (simp add: reconstruct_def hist_t sev_t ci)
    next
      case (Inr s1)
      have "severity_index_last_processed s1 = None"
        using history_loop_in_keeps_lp[OF filter_in_window_all Inr] by (simp add: walk_init_def)
      then have "s1\<lparr>severity_index_last_processed := None\<rparr> = s1"
        by simp
      then show ?thesis
        using walk Inr None by (simp add: reconstruct_def hist_t sev_t ci merge_lp_def)
    qed
  next
    case (Some c)
    have sev_t: "severity (truncate_at_cutoff succ bug) = removed c"
      using Some by (simp add: truncate_at_cutoff_def)
    have "removed c \<in> set SEVERITIES_LIST"
      using first_out_of_window_valid[OF valid Some] .
    then have ei: "list_index SEVERITIES_LIST (removed c) = Inr (sev_index (removed c))"
      by (rule sev_index_eq)
    show ?thesis
    proof (cases "history_loop rel succ ?F walk_init")
      case (Inl e)
      then show ?thesis
        using walk by (simp add: reconstruct_def hist_t sev_t ci ei)
    next
      case (Inr s1)
      have "severity_index_last_processed s1 = None"
        using history_loop_in_keeps_lp[OF filter_in_window_all Inr] by (simp add: walk_init_def)
      then show ?thesis
        using walk Inr Some
        by (simp add: reconstruct_def hist_t sev_t ci ei merge_lp_def walk_fallbacks_lp)
    qed
  qed
qed

lemma find_append_case:
  "find P (xs @ ys) = (case find P xs of None \<Rightarrow> find P ys | Some x \<Rightarrow> Some x)"
  by (induction xs) simp_all

lemma first_out_of_window_all_out:
  "\<forall>h \<in> set hs. (\<exists>x \<in> set (changes h). is_severity_change x) \<longrightarrow> when_utc h > succ \<Longrightarrow>
   first_out_of_window succ hs = find is_severity_change (concat (map changes hs))"
proof (induction hs)
  case Nil
  then show ?case by simp
next
  case (Cons h hs)
  have IH: "first_out_of_window succ hs = find is_severity_change (concat (map changes hs))"
    using Cons by simp
  show ?case
  proof (cases "find is_severity_change (changes h)")
    case None
    then show ?thesis using IH by (simp add: find_append_case)
  next
    case (Some c)
    then have "\<exists>x \<in> set (changes h). is_severity_change x"
      by (auto simp: find_Some_iff)
    then have "when_utc h > succ" using Cons.prems by simp
    then show ?thesis using Some by (simp add: find_append_case)
  qed
qed

lemma severity_group_values:
  "severity_group ''normal'' = Inr 2"
  "severity_group ''minor'' = Inr 1"
  "severity_group ''critical'' = Inr 3"
  by (simp_all add: severity_group_def SEVERITIES_def dict_getitem_def SEVERITIES_GROUP_LIST_def)

lemma history_loop_append:
  "history_loop rel succ (xs @ ys) s =
     (case history_loop rel succ xs s of
        Inl err \<Rightarrow> Inl err
      | Inr s1 \<Rightarrow> history_loop rel succ ys s1)"
proof (induction xs arbitrary: s)
  case Nil
  then show ?case by simp
next
  case (Cons h xs)
  then show ?case
    by (cases "changes_loop rel succ (when_utc h) (changes h) s") simp_all
qed

lemma changes_loop_crossing_raises:
  assumes "\<not> t > succ" "t > rel"
  shows "list_all valid_change cs \<Longrightarrow> \<exists>c \<in> set cs. is_severity_change c \<Longrightarrow>
     pre_release_phase s \<Longrightarrow> severity_highest_index_before_release s = None \<Longrightarrow>
     changes_loop rel succ t cs s = Inl TypeError"
proof (induction cs)
  case Nil
  then show ?case by simp
next
  case (Cons c cs)
  show ?case
  proof (cases "is_severity_change c")
    case False
    then have "field_name c \<noteq> ''severity''"
      by (simp add: is_severity_change_def)
    moreover have "\<exists>c \<in> set cs. is_severity_change c"
      using Cons.prems(2) False by auto
    ultimately show ?thesis using Cons by simp
  next
    case True
    then have f: "field_name c = ''severity''"
      by (simp add: is_severity_change_def)
    have "removed c \<in> set SEVERITIES_LIST" "added c \<in> set SEVERITIES_LIST"
      using Cons.prems(1) True by (simp_all add: valid_change_def)
    then have "list_index SEVERITIES_LIST (removed c) = Inr (sev_index (removed c))"
      "list_index SEVERITIES_LIST (added c) = Inr (sev_index (added c))"
      by (simp_all add: sev_index_eq)
    then show ?thesis
      using f assms Cons.prems(3,4)
      by (simp add: release_crossing_def py_max_def)
  qed
qed

lemma running_max_append:
  "running_max b (xs @ ys) = running_max (running_max b xs) ys"
  by (induction xs arbitrary: b) simp_all

lemma Max_set_max:
  "Max (set (max a b # xs)) = Max (set (a # b # (xs::nat list)))"
proof (cases xs)
  case Nil
  then show ?thesis by simp
next
  case (Cons x xs')
  then have "set xs \<noteq> {}" by simp
  then show ?thesis by (simp add: max.assoc)
qed

lemma running_max_Some:
  "running_max (Some b) cs = Some (Max (set (b # map (\<lambda>x. sev_index (added x)) cs)))"
proof (induction cs arbitrary: b)
  case Nil
  then show ?case by simp
next
  case (Cons c cs)
  show ?case
    using Max_set_max[of b "sev_index (added c)" "map (\<lambda>x. sev_index (added x)) cs"]
    by (simp add: Cons del: Max_insert set_simps list.set)
qed

lemma running_max_eq: "running_max b cs = maximum_with b cs"
proof (cases cs)
  case Nil
  then show ?thesis by (simp add: maximum_with_def)
next
  case (Cons c rest)
  let ?b = "case b of None \<Rightarrow> sev_index (removed c) | Some x \<Rightarrow> x"
  have "running_max b cs =
          Some (Max (set (max ?b (sev_index (added c)) # map (\<lambda>x. sev_index (added x)) rest)))"
    unfolding Cons by (simp add: running_max_Some del: Max_insert set_simps list.set)
  also have "\<dots> = Some (Max (set (?b # map (\<lambda>x. sev_index (added x)) cs)))"
    by (simp only: Cons list.map Max_set_max)
  finally show ?thesis unfolding Cons by (simp add: maximum_with_def del: Max_insert)
qed

lemma phase_update_pre_release:
  "pre_release_phase s \<Longrightarrow>
   phase_update io inew s =
     Inr (s\<lparr>severity_highest_index_before_release :=
              Some (max (case severity_highest_index_before_release s of
                           None \<Rightarrow> io | Some x \<Rightarrow> x) inew)\<rparr>)"
  by (simp add: phase_update_def py_max_def Let_def split: option.splits)

lemma changes_loop_pre_release_exact:
  assumes "t \<le> rel" "rel \<le> succ"
  shows "list_all valid_change cs \<Longrightarrow> pre_release_phase s \<Longrightarrow>
     changes_loop rel succ t cs s =
       Inr (s\<lparr>severity_highest_index_before_release :=
                running_max (severity_highest_index_before_release s)
                  (filter is_severity_change cs)\<rparr>)"
proof (induction cs arbitrary: s)
  case Nil
  then show ?case by simp
next
  case (Cons c cs)
  have valid_cs: "list_all valid_change cs" using Cons.prems(1) by simp
  show ?case
  proof (cases "is_severity_change c")
    case False
    then have "field_name c \<noteq> ''severity''"
      by (simp add: is_severity_change_def)
    then show ?thesis
      using Cons.IH[OF valid_cs Cons.prems(2)] False by simp
  next
    case True
    then have f: "field_name c = ''severity''"
      by (simp add: is_severity_change_def)
    have "removed c \<in> set SEVERITIES_LIST" "added c \<in> set SEVERITIES_LIST"
      using Cons.prems(1) True by (simp_all add: valid_change_def)
    then have io: "list_index SEVERITIES_LIST (removed c) = Inr (sev_index (removed c))"
      and inew: "list_index SEVERITIES_LIST (added c) = Inr (sev_index (added c))"
      by (simp_all add: sev_index_eq)
    have cr: "release_crossing rel t (sev_index (removed c)) (sev_index (added c)) s = Inr s"
      using assms(1) by (simp add: release_crossing_def)
    define s2 where "s2 = s\<lparr>severity_highest_index_before_release :=
              Some (max (case severity_highest_index_before_release s of
                           None \<Rightarrow> sev_index (removed c) | Some x \<Rightarrow> x)
                        (sev_index (added c)))\<rparr>"
    have pu: "phase_update (sev_index (removed c)) (sev_index (added c)) s = Inr s2"
      unfolding s2_def using Cons.prems(2) by (rule phase_update_pre_release)
    have pre2: "pre_release_phase s2"
      using Cons.prems(2) by (simp add: s2_def)
    have nout: "\<not> t > succ" using assms by simp
    have "changes_loop rel succ t (c # cs) s = changes_loop rel succ t cs s2"
      using f io inew nout cr pu by simp
    also have "\<dots> = Inr (s2\<lparr>severity_highest_index_before_release :=
                running_max (severity_highest_index_before_release s2)
                  (filter is_severity_change cs)\<rparr>)"
      using Cons.IH[OF valid_cs pre2] .
    finally show ?thesis using True by (simp add: s2_def)
  qed
qed

lemma history_loop_pre_release_exact:
  assumes "rel \<le> succ"
  shows "\<forall>x \<in> set hs. when_utc x \<le> rel \<Longrightarrow>
     list_all (\<lambda>h. list_all valid_change (changes h)) hs \<Longrightarrow> pre_release_phase s \<Longrightarrow>
     history_loop rel succ hs s =
       Inr (s\<lparr>severity_highest_index_before_release :=
                running_max (severity_highest_index_before_release s) (severity_changes hs)\<rparr>)"
proof (induction hs arbitrary: s)
  case Nil
  then show ?case by (simp add: severity_changes_def)
next
  case (Cons h hs)
  have t: "when_utc h \<le> rel" and v: "list_all valid_change (changes h)"
    using Cons.prems by simp_all
  define s1 where "s1 = s\<lparr>severity_highest_index_before_release :=
                running_max (severity_highest_index_before_release s)
                  (filter is_severity_change (changes h))\<rparr>"
  have step: "changes_loop rel succ (when_utc h) (changes h) s = Inr s1"
    unfolding s1_def using changes_loop_pre_release_exact[OF t assms v Cons.prems(3)] .
  have pre1: "pre_release_phase s1"
    using Cons.prems(3) by (simp add: s1_def)
  have "history_loop rel succ (h # hs) s = history_loop rel succ hs s1"
    using step by simp
  also have "\<dots> = Inr (s1\<lparr>severity_highest_index_before_release :=
                running_max (severity_highest_index_before_release s1) (severity_changes hs)\<rparr>)"
    using Cons.IH[OF _ _ pre1] Cons.prems by simp
  finally show ?case
    by (simp add: s1_def severity_changes_def running_max_append)
qed

section \<open>Lemmas on the cache, the handler and the batches\<close>

lemma list_all_update:
  "list_all P al \<Longrightarrow> P (k, v) \<Longrightarrow> list_all P (AList.update k v al)"
  by (induction al) auto

lemma add_data_ok:
  assumes "phase_node_ok node"
  shows "\<exists>node1. add_bugzilla_data_to_save [] bug node = Inr node1 \<and> phase_node_ok node1"
proof -
  obtain kvs xs where node: "node = JDict kvs" and d: "map_of kvs ''data'' = Some (JList xs)"
    using assms by (cases node) (auto split: option.splits json.splits)
  show ?thesis
    unfolding node using d by (simp add: update_conv')
qed

lemma add_phase_ok:
  assumes "name \<noteq> ''data''" "phases_ok phases"
  shows "\<exists>phases1. add_bugzilla_data_to_save [name] bug (JDict phases) = Inr (JDict phases1) \<and>
           phases_ok phases1"
proof (cases "map_of phases name")
  case None
  let ?new = "JDict [(''data'', JList [])]"
  let ?phases0 = "phases @ [(name, ?new)]"
  have look: "map_of ?phases0 name = Some ?new"
    using None by (simp add: map_add_def)
  have ok0: "phases_ok ?phases0"
    using assms(2) by simp
  obtain node1 where n1: "add_bugzilla_data_to_save [] bug ?new = Inr node1" "phase_node_ok node1"
    using add_data_ok[of ?new bug] by auto
  have "add_bugzilla_data_to_save [name] bug (JDict phases) =
          Inr (JDict (AList.update name node1 ?phases0))"
    using None look n1(1) by (simp del: add_bugzilla_data_to_save.simps(1)
        add: Let_def)
  moreover have "phases_ok (AList.update name node1 ?phases0)"
    using ok0 n1(2) by (intro list_all_update) simp_all
  ultimately show ?thesis by blast
next
  case (Some node)
  then have "(name, node) \<in> set phases"
    by (rule map_of_SomeD)
  then have "phase_node_ok node"
    using assms by (auto simp: list_all_iff)
  then obtain node1 where n1: "add_bugzilla_data_to_save [] bug node = Inr node1"
    "phase_node_ok node1"
    using add_data_ok by blast
  have "add_bugzilla_data_to_save [name] bug (JDict phases) =
          Inr (JDict (AList.update name node1 phases))"
    using Some n1(1) by (simp del: add_bugzilla_data_to_save.simps(1) add: Let_def)
  moreover have "phases_ok (AList.update name node1 phases)"
    using assms(2) n1(2) by (intro list_all_update) simp_all
  ultimately show ?thesis by blast
qed

lemma add_opened_ok:
  assumes "name \<noteq> ''data''" "save_ready saved"
  shows "\<exists>saved1. add_bugzilla_data_to_save [''opened'', name] bug saved = Inr saved1 \<and>
           save_ready saved1"
proof -
  obtain kvs where saved: "saved = JDict kvs"
    using assms(2) by (cases saved) (simp_all add: save_ready_def)
  show ?thesis
  proof (cases "map_of kvs ''opened''")
    case None
    let ?new = "JDict [(''data'', JList [])]"
    let ?kvs0 = "kvs @ [(''opened'', ?new)]"
    have look: "map_of ?kvs0 ''opened'' = Some ?new"
      using None by (simp add: map_add_def)
    obtain phases1 where p1:
      "add_bugzilla_data_to_save [name] bug ?new = Inr (JDict phases1)" "phases_ok phases1"
      using add_phase_ok[OF assms(1), of "[(''data'', JList [])]" bug] by auto
    have "add_bugzilla_data_to_save [''opened'', name] bug saved =
            Inr (JDict (AList.update ''opened'' (JDict phases1) ?kvs0))"
      unfolding saved using None look p1(1)
      by (simp del: add_bugzilla_data_to_save.simps(1) add: Let_def)
    moreover have "save_ready (JDict (AList.update ''opened'' (JDict phases1) ?kvs0))"
      using p1(2) by (simp add: save_ready_def update_conv')
    ultimately show ?thesis by blast
  next
    case (Some opened)
    then obtain phases where opened: "opened = JDict phases" and ok: "phases_ok phases"
      using assms(2) unfolding saved by (cases opened) (simp_all add: save_ready_def)
    obtain phases1 where p1:
      "add_bugzilla_data_to_save [name] bug (JDict phases) = Inr (JDict phases1)"
      "phases_ok phases1"
      using add_phase_ok[OF assms(1) ok] by blast
    have "add_bugzilla_data_to_save [''opened'', name] bug saved =
            Inr (JDict (AList.update ''opened'' (JDict phases1) kvs))"
      unfolding saved using Some opened p1(1)
      by (simp del: add_bugzilla_data_to_save.simps(1) add: Let_def)
    moreover have "save_ready (JDict (AList.update ''opened'' (JDict phases1) kvs))"
      using p1(2) by (simp add: save_ready_def update_conv')
    ultimately show ?thesis by blast
  qed
qed

lemma save_bug_ready:
  assumes "name \<noteq> ''data''" "save_ready (bugzilla_data_to_save st)"
  shows "\<exists>saved1. save_bug g (VStr name) bug st = Inr (st\<lparr>bugzilla_data_to_save := saved1\<rparr>) \<and>
           save_ready saved1"
proof (cases "truthy (bzdata_save_path g)")
  case True
  obtain saved1 where
    "add_bugzilla_data_to_save [''opened'', name] bug (bugzilla_data_to_save st) = Inr saved1"
    "save_ready saved1"
    using add_opened_ok[OF assms] by blast
  then show ?thesis using True by (auto simp: save_bug_def)
next
  case False
  have "st\<lparr>bugzilla_data_to_save := bugzilla_data_to_save st\<rparr> = st" by simp
  then show ?thesis using False assms(2) by (metis save_bug_def)
qed

lemma severity_group_less:
  "severity_group sev = Inr grp \<Longrightarrow> grp < length SEVERITIES_GROUP_LIST"
  by (auto simp: severity_group_def split: sum.splits dest: list_index_Inr)

lemma derive_groups:
  assumes "derive s = Inr d"
  shows "severity_group (sev_before_release d) = Inr (sev_group_before_release d) \<and>
         severity_group (sev_at_release d) = Inr (sev_group_at_release d) \<and>
         severity_group (sev_after_release d) = Inr (sev_group_after_release d)"
  using assms by (auto simp: derive_def split: sum.splits)

lemma reconstruct_groups:
  assumes "reconstruct rel succ bug = Inr d"
  shows "severity_group (sev_before_release d) = Inr (sev_group_before_release d) \<and>
         severity_group (sev_after_release d) = Inr (sev_group_after_release d) \<and>
         max (sev_group_before_release d) (sev_group_after_release d)
           < length SEVERITIES_GROUP_LIST"
proof -
  obtain s where "derive s = Inr d"
    using assms by (auto simp: reconstruct_def split: sum.splits)
  from derive_groups[OF this] show ?thesis
    using severity_group_less by (auto simp: max_def)
qed

lemma flag_bug_fields:
  "data_opened (flag_bug d bug st) = data_opened st"
  "bugzilla_data_to_save (flag_bug d bug st) = bugzilla_data_to_save st"
  "sev_lowered_and_increased (flag_bug d bug st) =
     sev_lowered_and_increased st @ (if lowered_and_increased d then [bug_row bug] else [])"
  "sev_increased_after_release (flag_bug d bug st) =
     sev_increased_after_release st @ (if increased_after_release d then [bug_row bug] else [])"
  by (simp_all add: flag_bug_def Let_def)

lemma save_bug_data_opened:
  "save_bug g phase bug st = Inr st1 \<Longrightarrow> data_opened st1 = data_opened st"
  by (auto simp: save_bug_def split: if_splits pyval.splits sum.splits)

lemma count_bug_Inr:
  assumes "count_bug target grp t st = Inr st1"
  shows "\<exists>n. cell (data_opened st) grp t = Some n \<and>
             st1 = st\<lparr>data_opened := bump (data_opened st) (grp, t)\<rparr>"
  using assms
  by (auto simp: count_bug_def dict_getitem_def cell_def bump_def
      split: pyval.splits sum.splits option.splits)

lemma cell_bump:
  "cell (bump table key) grp week =
     (if (grp, week) = key then map_option Suc (cell table grp week) else cell table grp week)"
  by (cases key) (auto simp: cell_def bump_def split: option.splits)

lemma bump_None: "bump table key grp = None \<longleftrightarrow> table grp = None"
  by (auto simp: bump_def split: option.splits)


lemma count_bug_ok:
  "cell (data_opened st) grp t = Some n \<Longrightarrow>
   count_bug VDataOpened grp t st = Inr (st\<lparr>data_opened := bump (data_opened st) (grp, t)\<rparr>)"
  by (auto simp: count_bug_def dict_getitem_def cell_def bump_def split: option.splits)

lemma bug_handler_countable:
  assumes "bug_handler g bug other st = Inr st1"
  shows "countable g (data_opened st) bug"
proof -
  from assms obtain target phase st0 d grp where
    sv: "save_bug g phase bug st = Inr st0"
    and d: "reconstruct (release_date g) (successor_release_date g) bug = Inr d"
    and grp: "list_getitem SEVERITIES_GROUP_LIST
               (Some (max (sev_group_before_release d) (sev_group_after_release d))) = Inr grp"
    and cnt: "count_bug target grp (week_key g bug) (flag_bug d bug st0) = Inr st1"
    by (auto simp: bug_handler_def week_key_def Let_def split: sum.splits prod.splits)
  have grp_eq: "grp = SEVERITIES_GROUP_LIST !
                  max (sev_group_before_release d) (sev_group_after_release d)"
    using grp reconstruct_groups[OF d] by (simp add: list_getitem_def)
  have tab: "data_opened (flag_bug d bug st0) = data_opened st"
    using save_bug_data_opened[OF sv] by (simp add: flag_bug_fields)
  from count_bug_Inr[OF cnt] have "cell (data_opened st) grp (week_key g bug) \<noteq> None"
    using tab by auto
  then show ?thesis
    using d grp_eq by (simp add: countable_def bucket_def)
qed

lemma bug_handler_live_ok:
  assumes "name \<noteq> ''data''" "save_ready (bugzilla_data_to_save st)"
    and "countable g (data_opened st) bug"
  shows "\<exists>st1. bug_handler g bug (bugdata name) st = Inr st1 \<and> aggregate_after g [bug] st st1"
proof -
  obtain d where d: "reconstruct (release_date g) (successor_release_date g) bug = Inr d"
    using assms(3) by (auto simp: countable_def bucket_def split: sum.splits)
  let ?grp = "SEVERITIES_GROUP_LIST !
                max (sev_group_before_release d) (sev_group_after_release d)"
  have b: "bucket g bug = Some (?grp, week_key g bug)"
    using d by (simp add: bucket_def)
  obtain n where n: "cell (data_opened st) ?grp (week_key g bug) = Some n"
    using assms(3) b by (auto simp: countable_def)
  obtain saved1 where sv:
    "save_bug g (VStr name) bug st = Inr (st\<lparr>bugzilla_data_to_save := saved1\<rparr>)"
    "save_ready saved1"
    using save_bug_ready[OF assms(1,2)] by blast
  let ?st0 = "st\<lparr>bugzilla_data_to_save := saved1\<rparr>"
  let ?st2 = "flag_bug d bug ?st0"
  have lg: "list_getitem SEVERITIES_GROUP_LIST
             (Some (max (sev_group_before_release d) (sev_group_after_release d))) = Inr ?grp"
    using reconstruct_groups[OF d] by (simp add: list_getitem_def)
  have "cell (data_opened ?st2) ?grp (week_key g bug) = Some n"
    using n by (simp add: flag_bug_fields)
  from count_bug_ok[OF this]
  have cnt: "count_bug VDataOpened ?grp (week_key g bug) ?st2 =
          Inr (?st2\<lparr>data_opened := bump (data_opened ?st2) (?grp, week_key g bug)\<rparr>)" .
  let ?st1 = "?st2\<lparr>data_opened := bump (data_opened ?st2) (?grp, week_key g bug)\<rparr>"
  have run: "bug_handler g bug (bugdata name) st = Inr ?st1"
    using sv(1) d lg cnt
    by (simp add: bug_handler_def bugdata_def other_getitem_def dict_getitem_def week_key_def
        Let_def split: prod.splits)
  have "aggregate_after g [bug] st ?st1"
    using b d sv(2)
    by (simp add: aggregate_after_def flag_bug_fields rows_lowered_def rows_increased_def)
  then show ?thesis using run by blast
qed

lemma countable_bump: "countable g (bump table key) bug \<longleftrightarrow> countable g table bug"
  by (auto simp: countable_def cell_bump split: option.splits)

lemma countable_foldl_bump:
  "countable g (foldl bump table keys) bug \<longleftrightarrow> countable g table bug"
  by (induction keys arbitrary: table) (simp_all add: countable_bump)

lemma aggregate_after_Nil:
  "save_ready (bugzilla_data_to_save st) \<Longrightarrow> aggregate_after g [] st st"
  by (simp add: aggregate_after_def)

lemma aggregate_after_append:
  "aggregate_after g xs st st1 \<Longrightarrow> aggregate_after g ys st1 st2 \<Longrightarrow>
   aggregate_after g (xs @ ys) st st2"
  by (simp add: aggregate_after_def)

lemma aggregate_after_countable:
  "aggregate_after g xs st st1 \<Longrightarrow>
   countable g (data_opened st1) bug \<longleftrightarrow> countable g (data_opened st) bug"
  by (simp add: aggregate_after_def countable_foldl_bump)

lemma handle_all_live:
  assumes "name \<noteq> ''data''"
  shows "save_ready (bugzilla_data_to_save st) \<Longrightarrow>
     (if \<forall>b \<in> set bugs. countable g (data_opened st) b
      then \<exists>st1. handle_all g (bugdata name) bugs st = Inr st1 \<and> aggregate_after g bugs st st1
      else \<exists>e. handle_all g (bugdata name) bugs st = Inl e)"
proof (induction bugs arbitrary: st)
  case Nil
  then show ?case by (simp add: aggregate_after_Nil)
next
  case (Cons bug bugs)
  show ?case
  proof (cases "countable g (data_opened st) bug")
    case False
    then have "\<exists>e. bug_handler g bug (bugdata name) st = Inl e"
      using bug_handler_countable[of g bug "bugdata name" st]
      by (cases "bug_handler g bug (bugdata name) st") auto
    then show ?thesis using False by auto
  next
    case True
    from bug_handler_live_ok[OF assms Cons.prems True] obtain st1 where
      st1: "bug_handler g bug (bugdata name) st = Inr st1" "aggregate_after g [bug] st st1"
      by blast
    have ready: "save_ready (bugzilla_data_to_save st1)"
      using st1(2) by (simp add: aggregate_after_def)
    have same: "\<And>b. countable g (data_opened st1) b \<longleftrightarrow> countable g (data_opened st) b"
      using aggregate_after_countable[OF st1(2)] .
    show ?thesis
    proof (cases "\<forall>b \<in> set bugs. countable g (data_opened st) b")
      case all: True
      then have "\<forall>b \<in> set bugs. countable g (data_opened st1) b"
        using same by simp
      then have "\<exists>st2. handle_all g (bugdata name) bugs st1 = Inr st2 \<and>
                    aggregate_after g bugs st1 st2"
        using Cons.IH[OF ready] by simp
      then obtain st2 where
        st2: "handle_all g (bugdata name) bugs st1 = Inr st2" "aggregate_after g bugs st1 st2"
        by blast
      have "aggregate_after g ([bug] @ bugs) st st2"
        using st1(2) st2(2) by (rule aggregate_after_append)
      then show ?thesis using True all st1(1) st2(1) by simp
    next
      case False
      then have "\<not> (\<forall>b \<in> set bugs. countable g (data_opened st1) b)"
        using same by simp
      then have "\<exists>e. handle_all g (bugdata name) bugs st1 = Inl e"
        using Cons.IH[OF ready] by simp
      then obtain e where "handle_all g (bugdata name) bugs st1 = Inl e"
        by blast
      then show ?thesis using False st1(1) by simp
    qed
  qed
qed

lemma handle_batches_live:
  "\<forall>b \<in> set batches. fst b \<noteq> ''data'' \<Longrightarrow> save_ready (bugzilla_data_to_save st) \<Longrightarrow>
     (if \<forall>b \<in> set (concat (map snd batches)). countable g (data_opened st) b
      then \<exists>st1. handle_batches g batches st = Inr st1 \<and>
                 aggregate_after g (concat (map snd batches)) st st1
      else \<exists>e. handle_batches g batches st = Inl e)"
proof (induction batches arbitrary: st)
  case Nil
  then show ?case by (simp add: aggregate_after_Nil)
next
  case (Cons batch batches)
  obtain name bugs where batch: "batch = (name, bugs)" by (cases batch)
  have name: "name \<noteq> ''data''" and names: "\<forall>b \<in> set batches. fst b \<noteq> ''data''"
    using Cons.prems(1) batch by simp_all
  note first = handle_all_live[OF name Cons.prems(2), of bugs g]
  show ?case
  proof (cases "\<forall>b \<in> set bugs. countable g (data_opened st) b")
    case False
    then have "\<exists>e. handle_all g (bugdata name) bugs st = Inl e"
      using first by simp
    then obtain e where "handle_all g (bugdata name) bugs st = Inl e"
      by blast
    then show ?thesis using False batch by auto
  next
    case True
    then have "\<exists>st1. handle_all g (bugdata name) bugs st = Inr st1 \<and>
                  aggregate_after g bugs st st1"
      using first by simp
    then obtain st1 where
      st1: "handle_all g (bugdata name) bugs st = Inr st1" "aggregate_after g bugs st st1"
      by blast
    have ready: "save_ready (bugzilla_data_to_save st1)"
      using st1(2) by (simp add: aggregate_after_def)
    have same: "\<And>b. countable g (data_opened st1) b \<longleftrightarrow> countable g (data_opened st) b"
      using aggregate_after_countable[OF st1(2)] .
    note rest = Cons.IH[OF names ready]
    show ?thesis
    proof (cases "\<forall>b \<in> set (concat (map snd batches)). countable g (data_opened st) b")
      case all: True
      then have "\<forall>b \<in> set (concat (map snd batches)). countable g (data_opened st1) b"
        using same by simp
      then have "\<exists>st2. handle_batches g batches st1 = Inr st2 \<and>
                    aggregate_after g (concat (map snd batches)) st1 st2"
        using rest by simp
      then obtain st2 where
        st2: "handle_batches g batches st1 = Inr st2"
        "aggregate_after g (concat (map snd batches)) st1 st2"
        by blast
      have "aggregate_after g (bugs @ concat (map snd batches)) st st2"
        using st1(2) st2(2) by (rule aggregate_after_append)
      then show ?thesis using True all st1(1) st2(1) batch by auto
    next
      case False
      then have "\<not> (\<forall>b \<in> set (concat (map snd batches)). countable g (data_opened st1) b)"
        using same by simp
      then have "\<exists>e. handle_batches g batches st1 = Inl e"
        using rest by simp
      then obtain e where "handle_batches g batches st1 = Inl e"
        by blast
      then show ?thesis using False st1(1) batch by auto
    qed
  qed
qed

lemma foldl_bump_None: "foldl bump table keys grp = None \<longleftrightarrow> table grp = None"
  by (induction keys arbitrary: table) (simp_all add: bump_None)

lemma cell_foldl_bump:
  "cell (foldl bump table keys) grp week =
     map_option (\<lambda>n. n + count_list keys (grp, week)) (cell table grp week)"
proof (induction keys arbitrary: table)
  case Nil
  then show ?case by (simp add: option.map_ident)
next
  case (Cons key keys)
  show ?case
    by (cases "cell table grp week") (auto simp: Cons cell_bump)
qed

lemma table_eqI:
  assumes "\<And>grp. a grp = None \<longleftrightarrow> b grp = None"
    and "\<And>grp week. cell a grp week = cell b grp week"
  shows "a = b"
proof
  fix grp
  show "a grp = b grp"
  proof (cases "a grp")
    case None
    then show ?thesis using assms(1)[of grp] by simp
  next
    case (Some ca)
    then obtain cb where cb: "b grp = Some cb"
      using assms(1)[of grp] by (cases "b grp") auto
    have "ca = cb"
    proof
      fix week
      show "ca week = cb week"
        using assms(2)[of grp week] Some cb by (simp add: cell_def)
    qed
    then show ?thesis using Some cb by simp
  qed
qed

lemma foldl_bump_mset:
  assumes "mset keys1 = mset keys2"
  shows "foldl bump table keys1 = foldl bump table keys2"
proof (rule table_eqI)
  fix grp
  show "foldl bump table keys1 grp = None \<longleftrightarrow> foldl bump table keys2 grp = None"
    by (simp add: foldl_bump_None)
next
  fix grp week
  have "count_list keys1 (grp, week) = count_list keys2 (grp, week)"
    using assms by (metis count_mset)
  then show "cell (foldl bump table keys1) grp week = cell (foldl bump table keys2) grp week"
    by (simp add: cell_foldl_bump)
qed

lemma mset_concat_map:
  "mset (concat (map f xs)) = (\<Sum>x \<in># mset xs. mset (f x))"
  by (induction xs) simp_all

lemma aggregate_after_mset:
  assumes "aggregate_after g xs st st1" "aggregate_after g ys st st2" "mset xs = mset ys"
  shows "data_opened st1 = data_opened st2 \<and>
         mset (sev_lowered_and_increased st1) = mset (sev_lowered_and_increased st2) \<and>
         mset (sev_increased_after_release st1) = mset (sev_increased_after_release st2)"
proof -
  have "mset (map (\<lambda>b. the (bucket g b)) xs) = mset (map (\<lambda>b. the (bucket g b)) ys)"
    using assms(3) by simp
  then have "foldl bump (data_opened st) (map (\<lambda>b. the (bucket g b)) xs) =
             foldl bump (data_opened st) (map (\<lambda>b. the (bucket g b)) ys)"
    by (rule foldl_bump_mset)
  moreover have "mset (concat (map (rows_lowered g) xs)) = mset (concat (map (rows_lowered g) ys))"
    "mset (concat (map (rows_increased g) xs)) = mset (concat (map (rows_increased g) ys))"
    using assms(3) by (simp_all add: mset_concat_map)
  ultimately show ?thesis
    using assms(1,2) by (simp add: aggregate_after_def)
qed

section \<open>Evaluation of the example run\<close>

lemmas main_eval =
  main_def example_env_def resolve_path_def truthy_def default_bzdata_path_def csv_path_def
  str_int_def str_nat.simps get_bugs_def state_init_def queries_def phase_windows.simps
  run_queries_def
  bugdata_def bug_handler_def other_getitem_def dict_getitem_def save_bug_def
  reconstruct_def example_bug_def SEVERITIES_LIST_def walk_init_def walk_fallbacks_def
  derive_def list_getitem_def severity_group_def SEVERITIES_def SEVERITIES_GROUP_LIST_def
  flag_bug_def lowered_and_increased_def increased_after_release_def WFMT_format_def
  count_bug_def data_opened_init_def save_cache_def json_load_def json_getitem_def Let_def

lemmas handler_eval =
  example_globals_def example_env_def example_bug_def example_raised_bug_def
  severity_change_def state_init_def data_opened_init_def
  bugdata_def bug_handler_def other_getitem_def dict_getitem_def save_bug_def truthy_def
  reconstruct_def SEVERITIES_LIST_def walk_init_def walk_fallbacks_def
  release_crossing_def phase_update_def py_max_def
  derive_def list_getitem_def severity_group_def SEVERITIES_def SEVERITIES_GROUP_LIST_def
  flag_bug_def lowered_and_increased_def increased_after_release_def WFMT_format_def
  str_nat.simps count_bug_def Let_def





lemma load_mode_handler_raises:
  "handle_all g TheDataOpened (bug # bugs) (state_init g saved) = Inl KeyError"
  by (simp add: bug_handler_def other_getitem_def dict_getitem_def state_init_def
      data_opened_init_def SEVERITIES_def)

section \<open>Properties of the reconstructor, the aggregator and the script\<close>

text \<open>
  C1. A bug whose first severity change inside the window comes strictly after the
  release, with no pre-release change before it, should get that change's old value as
  \<open>severity_before\<close>. It gets no value: the walk reaches line 145 with
  \<open>severity_highest_index_before_release\<close> still \<open>None\<close>, and \<open>max(None, ...)\<close> raises
  \<open>TypeError\<close>. This holds for every record with severity values from the enumeration
  whose history reaches an in-window entry after the release that holds a severity
  change, when no earlier in-window entry holds one; for instance for a bug created as
  normal and raised to critical at day 40, with the release at day 30 and the successor
  release at day 60.
\<close>

theorem first_change_after_release_raises:
  assumes "names_valid bug"
    and "history bug = earlier @ h # later"
    and "\<forall>x \<in> set earlier. in_window succ x \<longrightarrow>
           (\<forall>c \<in> set (changes x). \<not> is_severity_change c)"
    and "in_window succ h" and "when_utc h > rel"
    and "\<exists>c \<in> set (changes h). is_severity_change c"
  shows "reconstruct rel succ bug = Inl TypeError"
proof -
  have valid: "list_all (\<lambda>h. list_all valid_change (changes h)) (history bug)"
    and cur: "severity bug \<in> set SEVERITIES_LIST"
    using assms(1) by (simp_all add: names_valid_def)
  have v1: "list_all (\<lambda>h. list_all valid_change (changes h)) earlier"
    and v2: "list_all valid_change (changes h)"
    using valid assms(2) by simp_all
  let ?F = "filter (in_window succ) earlier"
  have "\<forall>x \<in> set ?F. \<forall>c \<in> set (changes x). field_name c \<noteq> ''severity''"
    using assms(3) by (auto simp: is_severity_change_def)
  then have inner: "history_loop rel succ ?F walk_init = Inr walk_init"
    by (rule history_loop_no_severity)
  define s0 where "s0 = walk_init\<lparr>severity_index_last_processed :=
      merge_lp (severity_index_last_processed walk_init) (first_out_of_window succ earlier)\<rparr>"
  have pre: "history_loop rel succ earlier walk_init = Inr s0"
    unfolding s0_def using history_loop_filter[OF v1, of rel succ walk_init] inner by simp
  have s0: "pre_release_phase s0" "severity_highest_index_before_release s0 = None"
    by (simp_all add: s0_def walk_init_def)
  have "\<not> when_utc h > succ"
    using assms(4) by (simp add: in_window_def)
  from changes_loop_crossing_raises[OF this assms(5) v2 assms(6) s0]
  have "changes_loop rel succ (when_utc h) (changes h) s0 = Inl TypeError" .
  then have "history_loop rel succ (history bug) walk_init = Inl TypeError"
    unfolding assms(2) using pre by (simp add: history_loop_append)
  then show ?thesis
    using sev_index_eq[OF cur] by (simp add: reconstruct_def)
qed

theorem first_change_after_release_raises_witness:
  "reconstruct 2592000 5184000
     (example_bug\<lparr>severity := ''critical'',
                  history := [severity_change 3456000 ''normal'' ''critical'']\<rparr>)
   = Inl TypeError"
  using first_change_after_release_raises
          [of "example_bug\<lparr>severity := ''critical'',
                  history := [severity_change 3456000 ''normal'' ''critical'']\<rparr>"
              "[]" "severity_change 3456000 ''normal'' ''critical''" "[]" 5184000 2592000]
  by (simp add: names_valid_def valid_change_def is_severity_change_def example_bug_def
      severity_change_def SEVERITIES_LIST_def in_window_def)

text \<open>
  C2. Severity changes after the successor release contribute to none of the three
  derived values: for every record whose severity values are members of the enumeration,
  the reconstructor gives the same result (the same three values and groups, or the same
  exception) on the record and on the record truncated at the cutoff, in which the old
  value of the first out-of-window change stands for the final severity. No entry of the
  truncated history is after the cutoff, and for a chronologically ordered history the
  truncated history is the prefix before the first out-of-window entry. The equality does
  not need the order: entries after the first out-of-window one are still walked.
\<close>

theorem out_of_window_changes_excluded:
  assumes "names_valid bug"
  shows "reconstruct rel succ bug = reconstruct rel succ (truncate_at_cutoff succ bug) \<and>
         list_all (in_window succ) (history (truncate_at_cutoff succ bug)) \<and>
         (sorted (map when_utc (history bug)) \<longrightarrow>
            history (truncate_at_cutoff succ bug) = takeWhile (in_window succ) (history bug))"
  using reconstruct_truncate[OF assms]
  by (simp add: truncate_at_cutoff_def filter_in_window_all sorted_filter_takeWhile)

theorem out_of_window_changes_excluded_witness:
  "reconstruct 2592000 5184000
     (example_bug\<lparr>severity := ''major'',
                  history := [severity_change 864000 ''normal'' ''minor'',
                              severity_change 6048000 ''minor'' ''major'']\<rparr>)
   = reconstruct 2592000 5184000
       (truncate_at_cutoff 5184000
          (example_bug\<lparr>severity := ''major'',
                       history := [severity_change 864000 ''normal'' ''minor'',
                                   severity_change 6048000 ''minor'' ''major'']\<rparr>)) \<and>
   reconstruct 2592000 5184000
     (example_bug\<lparr>severity := ''major'',
                  history := [severity_change 864000 ''normal'' ''minor'',
                              severity_change 6048000 ''minor'' ''major'']\<rparr>)
   = Inr \<lparr>sev_before_release = ''normal'', sev_at_release = ''minor'',
          sev_after_release = ''minor'', sev_group_before_release = 2,
          sev_group_at_release = 1, sev_group_after_release = 1\<rparr> \<and>
   history (truncate_at_cutoff 5184000
          (example_bug\<lparr>severity := ''major'',
                       history := [severity_change 864000 ''normal'' ''minor'',
                                   severity_change 6048000 ''minor'' ''major'']\<rparr>))
     = [severity_change 864000 ''normal'' ''minor''] \<and>
   severity (truncate_at_cutoff 5184000
          (example_bug\<lparr>severity := ''major'',
                       history := [severity_change 864000 ''normal'' ''minor'',
                                   severity_change 6048000 ''minor'' ''major'']\<rparr>))
     = ''minor''"
  using out_of_window_changes_excluded
          [of "example_bug\<lparr>severity := ''major'',
                  history := [severity_change 864000 ''normal'' ''minor'',
                              severity_change 6048000 ''minor'' ''major'']\<rparr>"
              2592000 5184000]
  by (simp add: names_valid_def valid_change_def is_severity_change_def example_bug_def
      severity_change_def SEVERITIES_LIST_def truncate_at_cutoff_def in_window_def
      reconstruct_def walk_init_def release_crossing_def phase_update_def py_max_def
      walk_fallbacks_def derive_def list_getitem_def severity_group_def SEVERITIES_def
      dict_getitem_def SEVERITIES_GROUP_LIST_def)



text \<open>
  C4. The end-to-end scenario: a bug created as normal, lowered to minor at day 10 and
  raised to critical at day 40, with the release at day 30 and the successor release not
  before day 40 (instants in seconds). The reconstructor returns \<open>severity_before\<close>
  normal, \<open>severity_at_release\<close> minor and \<open>severity_after\<close> critical; both flags hold,
  and the bug's row is appended to both flagged lists.
\<close>

theorem lowered_then_raised_scenario:
  assumes "history bug = [severity_change 864000 ''normal'' ''minor'',
                          severity_change 3456000 ''minor'' ''critical'']"
    and "severity bug \<in> set SEVERITIES_LIST"
    and "3456000 \<le> succ"
  shows "\<exists>d. reconstruct 2592000 succ bug = Inr d \<and>
           sev_before_release d = ''normal'' \<and>
           sev_at_release d = ''minor'' \<and>
           sev_after_release d = ''critical'' \<and>
           lowered_and_increased d \<and>
           increased_after_release d \<and>
           flag_bug d bug st =
             st\<lparr>sev_lowered_and_increased := sev_lowered_and_increased st @ [bug_row bug],
                sev_increased_after_release := sev_increased_after_release st @ [bug_row bug]\<rparr>"
proof -
  have ci: "list_index SEVERITIES_LIST (severity bug) = Inr (sev_index (severity bug))"
    using assms(2) by (rule sev_index_eq)
  have idx: "list_index SEVERITIES_LIST ''normal'' = Inr 3"
    "list_index SEVERITIES_LIST ''minor'' = Inr 2"
    "list_index SEVERITIES_LIST ''critical'' = Inr 5"
    by (simp_all add: SEVERITIES_LIST_def)
  have walk: "history_loop 2592000 succ (history bug) walk_init =
     Inr \<lparr>pre_release_phase = False,
          severity_highest_index_before_release = Some 3,
          severity_index_at_release = Some 2,
          severity_highest_index_after_release = Some 5,
          severity_index_last_processed = None\<rparr>"
    using assms(3)
    by (simp add: assms(1) severity_change_def idx walk_init_def release_crossing_def
        phase_update_def py_max_def)
  have nth: "SEVERITIES_LIST ! 3 = ''normal''" "SEVERITIES_LIST ! 2 = ''minor''"
    "SEVERITIES_LIST ! 5 = ''critical''" "length SEVERITIES_LIST = 7"
    by (simp_all add: SEVERITIES_LIST_def)
  have d: "reconstruct 2592000 succ bug =
     Inr \<lparr>sev_before_release = ''normal'', sev_at_release = ''minor'',
          sev_after_release = ''critical'', sev_group_before_release = 2,
          sev_group_at_release = 1, sev_group_after_release = 3\<rparr>"
    by (simp add: reconstruct_def ci walk walk_fallbacks_def derive_def list_getitem_def nth
        severity_group_values)
  show ?thesis
    unfolding d
    by (simp add: lowered_and_increased_def increased_after_release_def flag_bug_def)
qed

theorem lowered_then_raised_scenario_witness:
  "\<exists>d. reconstruct 2592000 5184000
          (example_bug\<lparr>severity := ''critical'',
                       history := [severity_change 864000 ''normal'' ''minor'',
                                   severity_change 3456000 ''minor'' ''critical'']\<rparr>) = Inr d \<and>
       sev_before_release d = ''normal'' \<and>
       sev_at_release d = ''minor'' \<and>
       sev_after_release d = ''critical'' \<and>
       lowered_and_increased d \<and>
       increased_after_release d"
proof -
  have "severity (example_bug\<lparr>severity := ''critical'',
                       history := [severity_change 864000 ''normal'' ''minor'',
                                   severity_change 3456000 ''minor'' ''critical'']\<rparr>)
          \<in> set SEVERITIES_LIST"
    by (simp add: SEVERITIES_LIST_def)
  from lowered_then_raised_scenario[OF _ this, of 5184000]
  show ?thesis by auto
qed

text \<open>
  C5. A severity change timestamped exactly at the release is processed as pre-release.
  For a history whose entries before the boundary entry are not after the release (a
  chronological history), with the release not after the successor release and severity
  values from the enumeration, the walk state is determined exactly. After the earlier
  entries only the running maximum for \<open>severity_before\<close> is set, to the maximum over
  their changes. After the boundary entry the state differs from that only in the running
  maximum, which is the greatest of its value so far (or the first old value of the
  entry when unset) and the new value of every severity change of the entry: the new
  values feed the running maximum. The walk is still in its pre-release phase, with no
  at-release snapshot and no post-release maximum. In any state, the crossing test of
  lines 142 to 146 does nothing for an entry at the release instant (crossing needs a
  strictly greater timestamp), and in any pre-release state lines 149 to 153 set the
  running maximum to the greater of its seeded value and the new value.
\<close>

theorem change_at_release_is_pre_release:
  assumes "rel \<le> succ"
    and "\<forall>x \<in> set earlier. when_utc x \<le> rel"
    and "when_utc h = rel"
    and "list_all (\<lambda>h. list_all valid_change (changes h)) (earlier @ [h])"
    and "c \<in> set (changes h)" and "is_severity_change c"
  shows "\<exists>s0 s b.
           history_loop rel succ earlier walk_init = Inr s0 \<and>
           s0 = walk_init\<lparr>severity_highest_index_before_release :=
                            maximum_with None (severity_changes earlier)\<rparr> \<and>
           history_loop rel succ (earlier @ [h]) walk_init = Inr s \<and>
           s = s0\<lparr>severity_highest_index_before_release :=
                    maximum_with (severity_highest_index_before_release s0)
                      (filter is_severity_change (changes h))\<rparr> \<and>
           pre_release_phase s \<and>
           severity_index_at_release s = None \<and>
           severity_highest_index_after_release s = None \<and>
           severity_highest_index_before_release s = Some b \<and>
           sev_index (added c) \<le> b \<and>
           (\<forall>st io inew. release_crossing rel (when_utc h) io inew st = Inr st) \<and>
           (\<forall>st io inew. pre_release_phase st \<longrightarrow>
              phase_update io inew st =
                Inr (st\<lparr>severity_highest_index_before_release :=
                          Some (max (case severity_highest_index_before_release st of
                                       None \<Rightarrow> io | Some x \<Rightarrow> x) inew)\<rparr>))"
proof -
  have v1: "list_all (\<lambda>h. list_all valid_change (changes h)) earlier"
    and v2: "list_all valid_change (changes h)"
    using assms(4) by simp_all
  let ?hc = "filter is_severity_change (changes h)"
  define s0 where "s0 = walk_init\<lparr>severity_highest_index_before_release :=
                            maximum_with None (severity_changes earlier)\<rparr>"
  define s where "s = s0\<lparr>severity_highest_index_before_release :=
                    maximum_with (severity_highest_index_before_release s0) ?hc\<rparr>"
  have init: "pre_release_phase walk_init" "severity_highest_index_before_release walk_init = None"
    by (simp_all add: walk_init_def)
  have run0: "history_loop rel succ earlier walk_init = Inr s0"
    unfolding s0_def
    using history_loop_pre_release_exact[OF assms(1) assms(2) v1 init(1)]
    by (simp add: init(2) running_max_eq)
  have pre0: "pre_release_phase s0"
    by (simp add: s0_def walk_init_def)
  have t: "when_utc h \<le> rel" using assms(3) by simp
  have step: "changes_loop rel succ (when_utc h) (changes h) s0 = Inr s"
    unfolding s_def
    using changes_loop_pre_release_exact[OF t assms(1) v2 pre0]
    by (simp add: running_max_eq)
  have run: "history_loop rel succ (earlier @ [h]) walk_init = Inr s"
    using run0 step by (simp add: history_loop_append)
  have mem: "c \<in> set ?hc"
    using assms(5,6) by simp
  then obtain c0 rest where hc: "?hc = c0 # rest"
    by (cases ?hc) auto
  define seed where "seed = (case severity_highest_index_before_release s0 of
                               None \<Rightarrow> sev_index (removed c0) | Some x \<Rightarrow> x)"
  let ?vals = "seed # map (\<lambda>x. sev_index (added x)) ?hc"
  have before: "severity_highest_index_before_release s = Some (Max (set ?vals))"
    unfolding s_def seed_def by (simp add: maximum_with_def hc)
  have "sev_index (added c) \<in> set ?vals"
    using mem by auto
  then have le: "sev_index (added c) \<le> Max (set ?vals)"
    by (intro Max_ge) simp_all
  have still: "pre_release_phase s" "severity_index_at_release s = None"
    "severity_highest_index_after_release s = None"
    by (simp_all add: s_def s0_def walk_init_def)
  have cross: "\<forall>st io inew. release_crossing rel (when_utc h) io inew st = Inr st"
    using assms(3) by (simp add: release_crossing_def)
  have upd: "\<forall>st io inew. pre_release_phase st \<longrightarrow>
              phase_update io inew st =
                Inr (st\<lparr>severity_highest_index_before_release :=
                          Some (max (case severity_highest_index_before_release st of
                                       None \<Rightarrow> io | Some x \<Rightarrow> x) inew)\<rparr>)"
    using phase_update_pre_release by blast
  show ?thesis
    using run0 run s0_def s_def still before le cross upd by blast
qed

theorem change_at_release_is_pre_release_witness:
  "history_loop 2592000 5184000 [severity_change 864000 ''normal'' ''minor''] walk_init
     = Inr (walk_init\<lparr>severity_highest_index_before_release := Some 3\<rparr>) \<and>
   history_loop 2592000 5184000
     ([severity_change 864000 ''normal'' ''minor''] @
      [severity_change 2592000 ''minor'' ''major'']) walk_init
     = Inr (walk_init\<lparr>severity_highest_index_before_release := Some 4\<rparr>) \<and>
   sev_index ''major'' = 4"
proof -
  let ?c = "\<lparr>field_name = ''severity'', removed = ''minor'', added = ''major''\<rparr>"
  have 1: "(2592000::int) \<le> 5184000" by simp
  have 2: "\<forall>x \<in> set [severity_change 864000 ''normal'' ''minor'']. when_utc x \<le> 2592000"
    by (simp add: severity_change_def)
  have 3: "when_utc (severity_change 2592000 ''minor'' ''major'') = 2592000"
    by (simp add: severity_change_def)
  have 4: "list_all (\<lambda>h. list_all valid_change (changes h))
             ([severity_change 864000 ''normal'' ''minor''] @
              [severity_change 2592000 ''minor'' ''major''])"
    by (simp add: severity_change_def valid_change_def SEVERITIES_LIST_def)
  have 5: "?c \<in> set (changes (severity_change 2592000 ''minor'' ''major''))"
    by (simp add: severity_change_def)
  have 6: "is_severity_change ?c"
    by (simp add: is_severity_change_def)
  have idx: "sev_index ''normal'' = 3" "sev_index ''minor'' = 2" "sev_index ''major'' = 4"
    by (simp_all add: sev_index_def SEVERITIES_LIST_def)
  have m0: "maximum_with None (severity_changes [severity_change 864000 ''normal'' ''minor''])
              = Some 3"
    by (simp add: maximum_with_def severity_changes_def severity_change_def
        is_severity_change_def idx)
  have m1: "maximum_with (Some 3)
              (filter is_severity_change (changes (severity_change 2592000 ''minor'' ''major'')))
              = Some 4"
    by (simp add: maximum_with_def severity_change_def is_severity_change_def idx)
  from change_at_release_is_pre_release[OF 1 2 3 4 5 6]
  show ?thesis
    by (auto simp: m0 m1 idx)
qed

text \<open>
  C6. A bug whose severity changes all lie after the successor release gets the old
  value of the first of them as all three derived values. The severity values of the
  record are members of the enumeration.
\<close>

theorem all_changes_after_cutoff:
  assumes "names_valid bug"
    and "find is_severity_change (concat (map changes (history bug))) = Some c"
    and "\<forall>h \<in> set (history bug).
           (\<exists>x \<in> set (changes h). is_severity_change x) \<longrightarrow> when_utc h > succ"
  shows "\<exists>d. reconstruct rel succ bug = Inr d \<and>
           sev_before_release d = removed c \<and>
           sev_at_release d = removed c \<and>
           sev_after_release d = removed c"
proof -
  let ?hs = "history bug"
  let ?F = "filter (in_window succ) ?hs"
  let ?i = "sev_index (removed c)"
  have valid: "list_all (\<lambda>h. list_all valid_change (changes h)) ?hs"
    and cur: "severity bug \<in> set SEVERITIES_LIST"
    using assms(1) by (simp_all add: names_valid_def)
  have ci: "list_index SEVERITIES_LIST (severity bug) = Inr (sev_index (severity bug))"
    using cur by (rule sev_index_eq)
  have fo: "first_out_of_window succ ?hs = Some c"
    using first_out_of_window_all_out[OF assms(3)] assms(2) by simp
  have rc: "removed c \<in> set SEVERITIES_LIST"
    using first_out_of_window_valid[OF valid fo] .
  have "\<forall>h \<in> set ?F. \<forall>x \<in> set (changes h). field_name x \<noteq> ''severity''"
    using assms(3) by (auto simp: in_window_def is_severity_change_def)
  then have inner: "history_loop rel succ ?F walk_init = Inr walk_init"
    by (rule history_loop_no_severity)
  have lp_init: "severity_index_last_processed walk_init = None"
    by (simp add: walk_init_def)
  have walk: "history_loop rel succ ?hs walk_init =
      Inr (walk_init\<lparr>severity_index_last_processed := Some ?i\<rparr>)"
    using history_loop_filter[OF valid, of rel succ walk_init] inner fo
    by (simp add: lp_init merge_lp_def)
  let ?s = "walk_fallbacks (sev_index (severity bug))
              (walk_init\<lparr>severity_index_last_processed := Some ?i\<rparr>)"
  have il: "?i < length SEVERITIES_LIST"
    using rc by (rule sev_index_less)
  have "severity_highest_index_before_release ?s = Some ?i"
    "severity_index_at_release ?s = Some ?i"
    "severity_highest_index_after_release ?s = Some ?i"
    by (simp_all add: walk_fallbacks_def walk_init_def)
  from derive_valid[OF this(1) il this(2) il this(3) il] sev_index_nth[OF rc]
  show ?thesis by (auto simp: reconstruct_def ci walk)
qed

theorem all_changes_after_cutoff_witness:
  "\<exists>d. reconstruct 2592000 5184000
          (example_bug\<lparr>severity := ''critical'',
                       history := [other_change 864000,
                                   severity_change 6048000 ''minor'' ''major'',
                                   severity_change 6134400 ''major'' ''critical'']\<rparr>) = Inr d \<and>
       sev_before_release d = ''minor'' \<and>
       sev_at_release d = ''minor'' \<and>
       sev_after_release d = ''minor''"
  using all_changes_after_cutoff
          [of "example_bug\<lparr>severity := ''critical'',
                       history := [other_change 864000,
                                   severity_change 6048000 ''minor'' ''major'',
                                   severity_change 6134400 ''major'' ''critical'']\<rparr>"
              "\<lparr>field_name = ''severity'', removed = ''minor'', added = ''major''\<rparr>"
              5184000 2592000]
  by (simp add: names_valid_def valid_change_def is_severity_change_def example_bug_def
      severity_change_def other_change_def SEVERITIES_LIST_def)

text \<open>
  C7. A bug whose history holds no severity change at all, and whose current severity
  is a member of the enumeration, gets its current severity as all three derived values:
  \<open>severity_before\<close>, \<open>severity_at_release\<close> and \<open>severity_after\<close>.
\<close>

theorem no_severity_change_all_current:
  assumes "\<forall>h \<in> set (history bug). \<forall>c \<in> set (changes h). field_name c \<noteq> ''severity''"
    and "severity bug \<in> set SEVERITIES_LIST"
  shows "\<exists>d. reconstruct rel succ bug = Inr d \<and>
           sev_before_release d = severity bug \<and>
           sev_at_release d = severity bug \<and>
           sev_after_release d = severity bug"
proof -
  obtain i where i: "list_index SEVERITIES_LIST (severity bug) = Inr i"
    using list_index_mem[OF assms(2)] by auto
  have il: "i < length SEVERITIES_LIST" and ix: "SEVERITIES_LIST ! i = severity bug"
    using list_index_Inr[OF i] by auto
  have w: "history_loop rel succ (history bug) walk_init = Inr walk_init"
    using history_loop_no_severity[OF assms(1)] .
  let ?s = "walk_fallbacks i walk_init"
  have "severity_highest_index_before_release ?s = Some i"
    "severity_index_at_release ?s = Some i"
    "severity_highest_index_after_release ?s = Some i"
    by (simp_all add: walk_fallbacks_def walk_init_def)
  from derive_valid[OF this(1) il this(2) il this(3) il] ix
  show ?thesis by (auto simp: reconstruct_def i w)
qed


theorem no_severity_change_all_current_witness:
  "\<exists>d. reconstruct 2592000 5184000 (example_bug\<lparr>history := [other_change 864000]\<rparr>) = Inr d \<and>
       sev_before_release d = ''normal'' \<and>
       sev_at_release d = ''normal'' \<and>
       sev_after_release d = ''normal''"
  using no_severity_change_all_current
          [of "example_bug\<lparr>history := [other_change 864000]\<rparr>" 2592000 5184000]
  by (simp add: example_bug_def other_change_def SEVERITIES_LIST_def)

text \<open>
  C8. Sub-windowing does not change the aggregate output. Batches (each with its phase
  name) fed one after another into the shared table and flagged lists give the same
  outcome as one batch holding the same bugs in any order: either both runs raise, or
  both return with the same weekly table and the same flagged bugs as multisets. The run
  starts from a cache that is ready (as the empty cache of line 71 is), and no phase is
  named \<open>data\<close>.
\<close>

theorem sub_window_partition_invariant:
  assumes "mset (concat (map snd batches)) = mset whole"
    and "\<forall>b \<in> set batches. fst b \<noteq> ''data''" and "name \<noteq> ''data''"
    and "save_ready (bugzilla_data_to_save st)"
  shows "same_aggregate (handle_batches g batches st) (handle_batches g [(name, whole)] st)"
proof -
  let ?xs = "concat (map snd batches)"
  have sets: "set ?xs = set whole"
    using assms(1) by (rule mset_eq_setD)
  have single: "\<forall>b \<in> set [(name, whole)]. fst b \<noteq> ''data''"
    using assms(3) by simp
  note split = handle_batches_live[OF assms(2) assms(4), of g]
  note one = handle_batches_live[OF single assms(4), of g]
  show ?thesis
  proof (cases "\<forall>b \<in> set whole. countable g (data_opened st) b")
    case True
    then have "\<forall>b \<in> set ?xs. countable g (data_opened st) b"
      unfolding sets .
    then have "\<exists>st1. handle_batches g batches st = Inr st1 \<and> aggregate_after g ?xs st st1"
      using split by (simp only: if_True)
    then obtain st1 where
      st1: "handle_batches g batches st = Inr st1" "aggregate_after g ?xs st st1"
      by blast
    have "\<exists>st2. handle_batches g [(name, whole)] st = Inr st2 \<and> aggregate_after g whole st st2"
      using one True by simp
    then obtain st2 where
      st2: "handle_batches g [(name, whole)] st = Inr st2" "aggregate_after g whole st st2"
      by blast
    from aggregate_after_mset[OF st1(2) st2(2) assms(1)]
    show ?thesis
      unfolding st1(1) st2(1) by (simp add: same_aggregate_def)
  next
    case False
    then have "\<not> (\<forall>b \<in> set ?xs. countable g (data_opened st) b)"
      unfolding sets .
    then have "\<exists>e. handle_batches g batches st = Inl e"
      using split by (simp only: if_False)
    then obtain e1 where e1: "handle_batches g batches st = Inl e1" by blast
    have "\<exists>e. handle_batches g [(name, whole)] st = Inl e"
      using one False by simp
    then obtain e2 where e2: "handle_batches g [(name, whole)] st = Inl e2" by blast
    show ?thesis
      unfolding e1 e2 by (simp add: same_aggregate_def)
  qed
qed

theorem sub_window_partition_invariant_witness:
  "same_aggregate
     (handle_batches example_globals
        [(''nightly'', [example_bug]), (''beta'', [example_raised_bug])]
        (state_init example_globals (JDict [])))
     (handle_batches example_globals
        [(''nightly'', [example_raised_bug, example_bug])]
        (state_init example_globals (JDict []))) \<and>
   (\<exists>st1. handle_batches example_globals
        [(''nightly'', [example_bug]), (''beta'', [example_raised_bug])]
        (state_init example_globals (JDict [])) = Inr st1 \<and>
      cell (data_opened st1) ''normal'' ''2019-40'' = Some 1 \<and>
      cell (data_opened st1) ''blocker+critical+major'' ''2019-40'' = Some 1 \<and>
      length (sev_increased_after_release st1) = 1)"
proof -
  have 1: "mset (concat (map snd [(''nightly'', [example_bug]), (''beta'', [example_raised_bug])]))
             = mset [example_raised_bug, example_bug]"
    by simp
  have 2: "\<forall>b \<in> set [(''nightly'', [example_bug]), (''beta'', [example_raised_bug])].
             fst b \<noteq> ''data''"
    by simp
  have 3: "''nightly'' \<noteq> ''data''" by simp
  have 4: "save_ready (bugzilla_data_to_save (state_init example_globals (JDict [])))"
    by (simp add: state_init_def save_ready_def)
  have run: "\<exists>st1. handle_batches example_globals
        [(''nightly'', [example_bug]), (''beta'', [example_raised_bug])]
        (state_init example_globals (JDict [])) = Inr st1 \<and>
      cell (data_opened st1) ''normal'' ''2019-40'' = Some 1 \<and>
      cell (data_opened st1) ''blocker+critical+major'' ''2019-40'' = Some 1 \<and>
      length (sev_increased_after_release st1) = 1"
    by (simp add: handler_eval cell_def)
  from sub_window_partition_invariant[OF 1 2 3 4, of example_globals] run
  show ?thesis by blast
qed

text \<open>
  C9. Cache-load mode should replay every saved record through the same handler with
  the same auxiliary data. It does not: line 244 passes the weekly table itself as the
  handler's second argument, so line 98 raises \<open>KeyError\<close> on the first record; and
  line 243 reads the \<open>nightly\<close> list only. Here a live run with \<open>--bzdata-save\<close> fetches
  one bug, writes the report and the cache; the run with \<open>--bzdata-load\<close> on the file
  system it left raises instead of producing the same report.
\<close>

theorem cache_replay_raises:
  "\<exists>fs messages table.
      main example_env
        \<lparr>arg_product_version = 70, arg_bzdata_load = None, arg_bzdata_save = Some None\<rparr>
        Map.empty = Inr (fs, messages) \<and>
      fs ''data/bugs_count_70.csv'' = Some (CsvFile table [] []) \<and>
      cell table ''normal'' ''2019-40'' = Some 1 \<and>
      fs ''data/bugzilla_data_70.json'' =
        Some (JsonFile
          (JDict [(''opened'',
             JDict [(''data'', JList []),
                    (''nightly'', JDict [(''data'', JList [example_bug])])])])) \<and>
      main example_env
        \<lparr>arg_product_version = 70, arg_bzdata_load = Some None, arg_bzdata_save = None\<rparr>
        fs = Inl KeyError"
  by (simp add: main_eval cell_def)

text \<open>
  C10. With \<open>--bzdata-save /tmp/cache.json\<close> the cache should be written to that
  path. Line 467 opens the version-derived default path instead: nothing is written at
  the given path, the cache is at \<open>data/bugzilla_data_70.json\<close>, and the logged message
  names the path that was not written.
\<close>

theorem explicit_save_path_ignored:
  "\<exists>fs. main example_env
            \<lparr>arg_product_version = 70, arg_bzdata_load = None,
             arg_bzdata_save = Some (Some ''/tmp/cache.json'')\<rparr> Map.empty
          = Inr (fs, [''Saved Bugzilla data to /tmp/cache.json'']) \<and>
        fs ''/tmp/cache.json'' = None \<and>
        fs ''data/bugzilla_data_70.json'' =
          Some (JsonFile
            (JDict [(''opened'',
               JDict [(''data'', JList []),
                      (''nightly'', JDict [(''data'', JList [example_bug])])])]))"
  by (simp add: main_eval)

end
